theory Spec2Isabelle
  imports Complex_Main "HOL-Library.Multiset" "HOL-Library.List_Lexorder" "HOL-Library.Char_ord"
begin

section \<open>Python values used by both procedures\<close>

text \<open>
  The repository is one Python module with two procedures, \<open>api_era5_land\<close> (the
  Fetcher) and \<open>aggregate_era5_land_timeseries\<close> (the Aggregator). Python integers are
  unbounded and are modelled by \<open>int\<close>; strings are \<open>string\<close>. Every exception the
  module can meet is a constructor of \<open>error\<close>; a procedure that can raise returns a sum
  with \<open>Inl\<close> for the exception, next to the state of the outside world it has left.
\<close>

datatype error =
    ValueError            \<comment> \<open>\<open>datetime(...)\<close> with a year outside 1..9999 or a month outside 1..12\<close>
  | IllegalMonthError     \<comment> \<open>\<open>calendar.monthrange\<close> with a month outside 1..12\<close>
  | ClientError           \<comment> \<open>\<open>cdsapi.Client()\<close> could not be set up\<close>
  | RetrieveError         \<comment> \<open>\<open>client.retrieve\<close> failed (network, authentication, quota)\<close>
  | OpenError             \<comment> \<open>a matched path does not hold a readable GRIB file\<close>
  | CombineError          \<comment> \<open>\<open>open_mfdataset\<close> could not combine the files by coordinates\<close>
  | WriteError            \<comment> \<open>\<open>to_netcdf\<close> could not write the output file\<close>

subsection \<open>Formatting integers: \<open>str(n)\<close> and \<open>f"{n:02d}"\<close>\<close>

text \<open>The decimal digit for a number below ten.\<close>

definition digit_char :: "nat \<Rightarrow> char" where
  "digit_char n = ''0123456789'' ! (n mod 10)"

function str_nat :: "nat \<Rightarrow> string" where
  "str_nat n = (if n < 10 then [digit_char n] else str_nat (n div 10) @ [digit_char (n mod 10)])"
  by pat_completeness auto
termination
  by (relation "measure id") auto

declare str_nat.simps [simp del]

definition str_int :: "int \<Rightarrow> string" where
  "str_int i = (if i < 0 then CHR ''-'' # str_nat (nat (- i)) else str_nat (nat i))"

definition zfill :: "nat \<Rightarrow> string \<Rightarrow> string" where
  "zfill w s = replicate (w - length s) (CHR ''0'') @ s"

text \<open>
  The format specification \<open>02d\<close>: sign-aware zero padding to width 2, so the sign (if
  any) counts towards the width and the zeros stand between the sign and the digits.
\<close>

definition fmt_02d :: "int \<Rightarrow> string" where
  "fmt_02d i = (if i < 0 then CHR ''-'' # zfill 1 (str_nat (nat (- i))) else zfill 2 (str_nat (nat i)))"

section \<open>The Fetcher: \<open>api_era5_land\<close>\<close>

subsection \<open>Dates\<close>

text \<open>
  Every \<open>datetime\<close> the Fetcher builds is the first day of a month at midnight, so a
  date is the pair (year, month). The constructor raises \<open>ValueError\<close> outside
  \<open>MINYEAR = 1 .. MAXYEAR = 9999\<close> and outside the months 1..12; \<open>\<le>\<close> on datetimes
  compares the fields in order.
\<close>

type_synonym date = "int \<times> int"

definition datetime :: "int \<Rightarrow> int \<Rightarrow> error + date" where
  "datetime y m = (if 1 \<le> y \<and> y \<le> 9999 \<and> 1 \<le> m \<and> m \<le> 12 then Inr (y, m) else Inl ValueError)"

fun date_le :: "date \<Rightarrow> date \<Rightarrow> bool" where
  "date_le (y1, m1) (y2, m2) = (y1 < y2 \<or> (y1 = y2 \<and> m1 \<le> m2))"

text \<open>The step of the while loop (lines 37-40): the date that \<open>current\<close> is set to.\<close>

definition next_month :: "date \<Rightarrow> error + date" where
  "next_month current =
     (if snd current = 12 then datetime (fst current + 1) 1
      else datetime (fst current) (snd current + 1))"

text \<open>
  The while loop of lines 33-40, with \<open>date_list\<close> as the accumulator. The successor
  date is built in the body, after the append and before the next test, so an
  exception of \<open>datetime\<close> there ends the whole procedure.
\<close>

function month_walk :: "date \<Rightarrow> date \<Rightarrow> date list \<Rightarrow> error + date list" where
  "month_walk current end_date date_list =
     (if date_le current end_date then
        (case next_month current of
           Inl e \<Rightarrow> Inl e
         | Inr nxt \<Rightarrow> month_walk nxt end_date (date_list @ [current]))
      else Inr date_list)"
  by pat_completeness auto
termination
proof (relation "measures [\<lambda>(c, e, l). nat (fst e - fst c + 1), \<lambda>(c, e, l). nat (13 - snd c)]",
    goal_cases)
  case 1
  show ?case by simp
next
  case (2 current end_date date_list nxt)
  obtain cy cm where c: "current = (cy, cm)" by (cases current)
  obtain ey em where e: "end_date = (ey, em)" by (cases end_date)
  from 2 c e show ?case
    by (auto simp: next_month_def datetime_def split: if_splits)
qed

declare month_walk.simps [simp del]

subsection \<open>Days of a month: \<open>calendar.monthrange\<close>\<close>

definition isleap :: "int \<Rightarrow> bool" where
  "isleap y = (y mod 4 = 0 \<and> (y mod 100 \<noteq> 0 \<or> y mod 400 = 0))"

definition mdays :: "int list" where
  "mdays = [0, 31, 28, 31, 30, 31, 30, 31, 31, 30, 31, 30, 31]"

text \<open>
  The second component of \<open>monthrange(year, month)\<close>, the number of days; the first
  (the weekday of the first day) is not used by the Fetcher.
\<close>

definition monthrange :: "int \<Rightarrow> int \<Rightarrow> error + int" where
  "monthrange y m =
     (if 1 \<le> m \<and> m \<le> 12
      then Inr (mdays ! nat m + (if m = 2 \<and> isleap y then 1 else 0))
      else Inl IllegalMonthError)"

subsection \<open>Requests and the remote archive\<close>

text \<open>The request dictionary of lines 51-60, one field per key.\<close>

record request =
  req_variable :: "string list"
  req_year :: string
  req_month :: string
  req_day :: "string list"
  req_time :: "string list"
  req_data_format :: string
  req_download_format :: string
  req_area :: "int list"

text \<open>
  The remote archive is outside the repository, so it is a parameter: whether
  \<open>cdsapi.Client()\<close> can be set up, and for every call of \<open>client.retrieve\<close> (dataset
  name, request, target path) whether it fails. \<open>None\<close> is a call that returns.
\<close>

record cdsapi =
  Client :: "error option"
  retrieve :: "string \<Rightarrow> request \<Rightarrow> string \<Rightarrow> error option"

text \<open>
  What the Fetcher leaves behind: the calls of \<open>client.retrieve\<close> it has made, in
  order (a call that then fails was still made), and the lines it has printed.
\<close>

record fetch_world =
  issued :: "(string \<times> request \<times> string) list"
  fetch_stdout :: "string list"

definition build_request :: "string list \<Rightarrow> int list \<Rightarrow> int \<Rightarrow> int \<Rightarrow> int \<Rightarrow> request" where
  "build_request variables area y m days_in_month =
     \<lparr> req_variable = variables,
       req_year = str_int y,
       req_month = fmt_02d m,
       req_day = map fmt_02d [1..days_in_month],
       req_time = map (\<lambda>h. fmt_02d h @ '':00'') [0..23],
       req_data_format = ''grib'',
       req_download_format = ''unarchived'',
       req_area = area \<rparr>"

text \<open>Line 62: the path of the file one month is downloaded to.\<close>

definition target_file :: "string \<Rightarrow> int \<Rightarrow> int \<Rightarrow> string" where
  "target_file target_path y m =
     target_path @ ''/'' @ str_int y @ ''_months'' @ fmt_02d m @ ''_europe.grib''"

text \<open>The for loop of lines 45-64 over \<open>date_list\<close>.\<close>

fun retrieve_months ::
  "cdsapi \<Rightarrow> string \<Rightarrow> string list \<Rightarrow> int list \<Rightarrow> date list \<Rightarrow> fetch_world
     \<Rightarrow> error option \<times> fetch_world" where
  "retrieve_months cds target_path variables area [] w = (None, w)"
| "retrieve_months cds target_path variables area ((y, m) # ds) w =
     (case monthrange y m of
        Inl e \<Rightarrow> (Some e, w)
      | Inr days_in_month \<Rightarrow>
          (let req = build_request variables area y m days_in_month;
               target = target_file target_path y m;
               w1 = w\<lparr>issued := issued w @ [(''reanalysis-era5-land'', req, target)]\<rparr>
           in case retrieve cds ''reanalysis-era5-land'' req target of
                Some e \<Rightarrow> (Some e, w1)
              | None \<Rightarrow>
                  retrieve_months cds target_path variables area ds
                    (w1\<lparr>fetch_stdout := fetch_stdout w1 @ [''Data downloaded to '' @ target]\<rparr>)))"

text \<open>
  The whole procedure. \<open>Some e\<close> in the first component is the exception it ends with,
  \<open>None\<close> a normal return.
\<close>

definition api_era5_land ::
  "cdsapi \<Rightarrow> string \<Rightarrow> int \<Rightarrow> int \<Rightarrow> int \<Rightarrow> int \<Rightarrow> string list \<Rightarrow> int list \<Rightarrow> fetch_world
     \<Rightarrow> error option \<times> fetch_world" where
  "api_era5_land cds target_path start_year start_month end_year end_month variables area w =
     (case datetime start_year start_month of
        Inl e \<Rightarrow> (Some e, w)
      | Inr start_date \<Rightarrow>
     (case datetime end_year end_month of
        Inl e \<Rightarrow> (Some e, w)
      | Inr end_date \<Rightarrow>
     (case month_walk start_date end_date [] of
        Inl e \<Rightarrow> (Some e, w)
      | Inr date_list \<Rightarrow>
     (case Client cds of
        Some e \<Rightarrow> (Some e, w)
      | None \<Rightarrow> retrieve_months cds target_path variables area date_list w))))"

section \<open>The Aggregator: \<open>aggregate_era5_land_timeseries\<close>\<close>

subsection \<open>Timestamps and their calendar year\<close>

text \<open>
  A \<open>valid_time\<close> is a \<open>datetime64[ns]\<close>: a count of nanoseconds since 1970-01-01.
  \<open>.dt.year\<close> takes the day number by floor division and splits it into 400-year,
  100-year, 4-year and 1-year cycles counted from 2000-01-01; \<open>days_to_year\<close> follows
  that decomposition step by step (\<open>div\<close> and \<open>mod\<close> on \<open>int\<close> round towards minus
  infinity, which is what the library computes for days before 2000). The missing
  timestamp NaT is not modelled: the \<open>valid_time\<close> of a GRIB field is the sum of its
  \<open>time\<close> and its \<open>step\<close>.
\<close>

type_synonym timestamp = int

definition ns_per_day :: int where
  "ns_per_day = 86400000000000"

definition days_to_year :: "int \<Rightarrow> int" where
  "days_to_year epoch_days =
     (let days = epoch_days - 10957;
          y400 = 400 * (days div 146097);
          d = days mod 146097
      in 2000 + y400 +
         (if 366 \<le> d then
            (let y100 = 100 * ((d - 1) div 36524);
                 d1 = (d - 1) mod 36524
             in y100 +
                (if 365 \<le> d1 then
                   (let y4 = 4 * ((d1 + 1) div 1461);
                        d2 = (d1 + 1) mod 1461
                    in y4 + (if 366 \<le> d2 then (d2 - 1) div 365 else 0))
                 else 0))
          else 0))"

definition year_of :: "timestamp \<Rightarrow> int" where
  "year_of t = days_to_year (t div ns_per_day)"

subsection \<open>Datasets\<close>

text \<open>
  A cell is one value of one variable at one grid point; \<open>None\<close> is NaN (missing). Only
  missingness is ever inspected, the numbers are carried along. A row is one label of
  the \<open>valid_time\<close> dimension: the timestamp and, for each variable, its cells over the
  spatial grid. A dataset is its data variables and its rows in order; a dataset with
  variables and no rows is not the same as one with no variables.
\<close>

type_synonym cell = "real option"

type_synonym row = "timestamp \<times> (string \<times> cell list) list"

record dataset =
  data_vars :: "string list"
  rows :: "row list"

text \<open>
  What \<open>open_mfdataset\<close> returns for GRIB files: the two time-like dimensions \<open>time\<close>
  (outer list) and \<open>step\<close> (inner list); the entry at (time, step) holds the
  \<open>valid_time\<close> coordinate and the variables' cells there.
\<close>

record gribds =
  grib_vars :: "string list"
  grid :: "row list list"

text \<open>\<open>xr.Dataset()\<close> of line 84.\<close>

definition Dataset :: dataset where
  "Dataset = \<lparr> data_vars = [], rows = [] \<rparr>"

text \<open>The truth value of a dataset (line 110): it has at least one data variable.\<close>

definition truthy :: "dataset \<Rightarrow> bool" where
  "truthy ds = (data_vars ds \<noteq> [])"

text \<open>
  Lines 99-102: \<open>time\<close> and \<open>step\<close> are stacked into one dimension in row-major order,
  labelled by the ravelled \<open>valid_time\<close> values, which becomes the dimension.
\<close>

definition stack_valid_time :: "gribds \<Rightarrow> dataset" where
  "stack_valid_time g = \<lparr> data_vars = grib_vars g, rows = concat (grid g) \<rparr>"

text \<open>Line 105: \<open>where(valid_time.dt.year == year, drop=True)\<close> keeps the labels of that year.\<close>

definition where_year :: "int \<Rightarrow> dataset \<Rightarrow> dataset" where
  "where_year y ds = ds\<lparr>rows := filter (\<lambda>r. year_of (fst r) = y) (rows ds)\<rparr>"

text \<open>Line 106: \<open>sortby("valid_time")\<close>, a stable sort on the timestamp.\<close>

definition sortby_valid_time :: "dataset \<Rightarrow> dataset" where
  "sortby_valid_time ds = ds\<lparr>rows := sort_key fst (rows ds)\<rparr>"

definition var_cells :: "row \<Rightarrow> string \<Rightarrow> cell list" where
  "var_cells r v = (case map_of (snd r) v of None \<Rightarrow> [] | Some cs \<Rightarrow> cs)"

definition all_missing :: "string list \<Rightarrow> row \<Rightarrow> bool" where
  "all_missing vars r = list_all (\<lambda>v. list_all (\<lambda>c. c = None) (var_cells r v)) vars"

text \<open>Line 107: \<open>dropna(dim="valid_time", how="all")\<close> drops the labels where every
  cell of every data variable is missing.\<close>

definition dropna_all :: "dataset \<Rightarrow> dataset" where
  "dropna_all ds = ds\<lparr>rows := filter (\<lambda>r. \<not> all_missing (data_vars ds) r) (rows ds)\<rparr>"

text \<open>
  Line 111: \<open>xr.concat\<close> along \<open>valid_time\<close> appends the rows; a variable that only one
  side has is kept, and is missing in the other side's rows.
\<close>

definition xr_concat :: "dataset \<Rightarrow> dataset \<Rightarrow> dataset" where
  "xr_concat a b =
     \<lparr> data_vars = data_vars a @ filter (\<lambda>v. v \<notin> set (data_vars a)) (data_vars b),
       rows = rows a @ rows b \<rparr>"

subsection \<open>Paths, patterns and the file system\<close>

datatype disk_file = GribFile gribds | NetCDFFile dataset

text \<open>
  The file system is outside the repository. \<open>listdir d\<close> is what scanning the directory
  with path \<open>d\<close> yields, in the order the system enumerates it (nothing for a path that
  is no directory); \<open>expand_dirs\<close> is glob's own expansion of a directory part that holds
  wildcard characters; \<open>same_dir\<close> says which path strings name one directory;
  \<open>files\<close> is the content found when a path is opened; \<open>writable\<close> says where a file
  can be created or overwritten. Links between files are not modelled.
\<close>

record filesystem =
  listdir :: "string \<Rightarrow> string list"
  expand_dirs :: "string \<Rightarrow> string list"
  same_dir :: "string \<Rightarrow> string \<Rightarrow> bool"
  files :: "string \<Rightarrow> disk_file option"
  writable :: "string \<Rightarrow> bool"

text \<open>
  \<open>fnmatch\<close> of a name against a pattern: \<open>*\<close> matches any run of characters, \<open>?\<close> one
  character, anything else itself. Bracket expressions are left out: the pattern of
  line 86 has no bracket after its last slash.
\<close>

fun fnmatch :: "string \<Rightarrow> string \<Rightarrow> bool" where
  "fnmatch [] [] = True"
| "fnmatch (c # cs) [] = False"
| "fnmatch [] (p # ps) = (p = CHR ''*'' \<and> fnmatch [] ps)"
| "fnmatch (c # cs) (p # ps) =
     (if p = CHR ''*'' then fnmatch (c # cs) ps \<or> fnmatch cs (p # ps)
      else if p = CHR ''?'' then fnmatch cs ps
      else p = c \<and> fnmatch cs ps)"

definition has_magic :: "string \<Rightarrow> bool" where
  "has_magic s = list_ex (\<lambda>c. c = CHR ''*'' \<or> c = CHR ''?'' \<or> c = CHR ''['') s"

definition ishidden :: "string \<Rightarrow> bool" where
  "ishidden n = (case n of [] \<Rightarrow> False | c # _ \<Rightarrow> c = CHR ''.'')"

text \<open>\<open>os.path.split\<close> and \<open>os.path.join\<close> for POSIX paths.\<close>

definition os_path_split :: "string \<Rightarrow> string \<times> string" where
  "os_path_split p =
     (let tail = rev (takeWhile (\<lambda>c. c \<noteq> CHR ''/'') (rev p));
          head = rev (dropWhile (\<lambda>c. c \<noteq> CHR ''/'') (rev p))
      in (if head \<noteq> [] \<and> \<not> list_all (\<lambda>c. c = CHR ''/'') head
          then rev (dropWhile (\<lambda>c. c = CHR ''/'') (rev head)) else head,
          tail))"

definition os_path_join :: "string \<Rightarrow> string \<Rightarrow> string" where
  "os_path_join a b =
     (if b \<noteq> [] \<and> hd b = CHR ''/'' then b
      else if a = [] \<or> last a = CHR ''/'' then a @ b
      else a @ ''/'' @ b)"

text \<open>
  \<open>glob.glob\<close> for a pattern with a directory part and a wildcard in its last
  component, the only kind line 86 builds: the directory part is taken literally
  unless it holds wildcard characters itself, each directory is scanned, hidden names
  are left out (the pattern does not start with a dot) and the rest is filtered by
  \<open>fnmatch\<close>.
\<close>

definition glob_glob :: "filesystem \<Rightarrow> string \<Rightarrow> string list" where
  "glob_glob fs pathname =
     (let (dirname, basename) = os_path_split pathname;
          dirs = (if has_magic dirname then expand_dirs fs dirname else [dirname])
      in concat (map (\<lambda>d. map (os_path_join d)
                   (filter (\<lambda>n. fnmatch n basename)
                      (filter (\<lambda>n. \<not> ishidden n) (listdir fs d)))) dirs))"

text \<open>
  \<open>to_netcdf\<close>: the file appears in its directory under every path that names the
  directory, and holds the dataset; where the path is not writable the call raises.
\<close>

definition same_file :: "filesystem \<Rightarrow> string \<Rightarrow> string \<Rightarrow> bool" where
  "same_file fs p q =
     (p = q \<or> (snd (os_path_split p) = snd (os_path_split q)
               \<and> same_dir fs (fst (os_path_split p)) (fst (os_path_split q))))"

definition to_netcdf :: "filesystem \<Rightarrow> string \<Rightarrow> dataset \<Rightarrow> error + filesystem" where
  "to_netcdf fs path ds =
     (if writable fs path then
        (let (dirname, basename) = os_path_split path
         in Inr (fs\<lparr> listdir := (\<lambda>d. if (d = dirname \<or> same_dir fs d dirname) \<and> basename \<notin> set (listdir fs d)
                                    then listdir fs d @ [basename] else listdir fs d),
                    files := (\<lambda>p. if same_file fs p path then Some (NetCDFFile ds) else files fs p) \<rparr>))
      else Inl WriteError)"

subsection \<open>The procedure\<close>

text \<open>
  The world the Aggregator runs in and changes: the file system, the lines printed so
  far, and the paths it has handed to \<open>open_mfdataset\<close> so far.
\<close>

record agg_world =
  disk :: filesystem
  stdout :: "string list"
  opened :: "string list"

text \<open>Line 86 and the output path of line 115.\<close>

definition grib_pattern :: "string \<Rightarrow> int \<Rightarrow> string" where
  "grib_pattern era5_land_data_path_inputs y =
     era5_land_data_path_inputs @ ''/'' @ str_int y @ ''_months*_europe.grib''"

definition output_file :: "string \<Rightarrow> int \<Rightarrow> int \<Rightarrow> string" where
  "output_file era5_land_data_path_outputs start_year end_year =
     era5_land_data_path_outputs @ ''/inflows_var_era5_'' @ str_int start_year @ ''to''
       @ str_int end_year @ ''.nc''"

text \<open>
  Line 95. Every path is opened as a GRIB file, and the files are combined by their
  coordinates. How xarray combines is not part of the repository: \<open>combine\<close> is a
  parameter, any function from the files' contents to a combined dataset or an
  exception. Reading is modelled as happening at once, not lazily.
\<close>

fun read_gribs :: "filesystem \<Rightarrow> string list \<Rightarrow> error + gribds list" where
  "read_gribs fs [] = Inr []"
| "read_gribs fs (p # ps) =
     (case files fs p of
        Some (GribFile g) \<Rightarrow>
          (case read_gribs fs ps of Inl e \<Rightarrow> Inl e | Inr gs \<Rightarrow> Inr (g # gs))
      | _ \<Rightarrow> Inl OpenError)"

definition open_mfdataset ::
  "(gribds list \<Rightarrow> error + gribds) \<Rightarrow> filesystem \<Rightarrow> string list \<Rightarrow> error + gribds" where
  "open_mfdataset combine fs paths =
     (case read_gribs fs paths of Inl e \<Rightarrow> Inl e | Inr gs \<Rightarrow> combine gs)"

text \<open>Lines 99-107: from the opened files of a year to that year's cleaned dataset.\<close>

definition clean_year :: "int \<Rightarrow> gribds \<Rightarrow> dataset" where
  "clean_year y ds = dropna_all (sortby_valid_time (where_year y (stack_valid_time ds)))"

text \<open>The body of the for loop (lines 86-113) for one year.\<close>

definition year_body ::
  "(gribds list \<Rightarrow> error + gribds) \<Rightarrow> string \<Rightarrow> int \<Rightarrow> dataset \<Rightarrow> agg_world
     \<Rightarrow> (error + dataset) \<times> agg_world" where
  "year_body combine inputs y ds_variable w =
     (let grib_files = sort (glob_glob (disk w) (grib_pattern inputs y))
      in if grib_files = [] then
           (Inr ds_variable,
            w\<lparr>stdout := stdout w @ [''No file for year '' @ str_int y @ '' found in '' @ inputs]\<rparr>)
         else
           (let w1 = w\<lparr>stdout := stdout w @ [''Opening GRIB files for year '' @ str_int y @ ''...''],
                       opened := opened w @ grib_files\<rparr>
            in case open_mfdataset combine (disk w) grib_files of
                 Inl e \<Rightarrow> (Inl e, w1)
               | Inr ds \<Rightarrow>
                   (let ds_ready = clean_year y ds;
                        w2 = w1\<lparr>stdout := stdout w1 @
                               [''Processing year '' @ str_int y @ '' ...'',
                                ''Filtering data for year '' @ str_int y @ '' ...'',
                                ''Concatenating datasets...'']\<rparr>
                    in (Inr (if truthy ds_variable then xr_concat ds_variable ds_ready else ds_ready),
                        w2))))"

text \<open>The for loop of line 85 over the years still to come.\<close>

fun year_loop ::
  "(gribds list \<Rightarrow> error + gribds) \<Rightarrow> string \<Rightarrow> int list \<Rightarrow> dataset \<Rightarrow> agg_world
     \<Rightarrow> (error + dataset) \<times> agg_world" where
  "year_loop combine inputs [] ds_variable w = (Inr ds_variable, w)"
| "year_loop combine inputs (y # ys) ds_variable w =
     (case year_body combine inputs y ds_variable w of
        (Inl e, w') \<Rightarrow> (Inl e, w')
      | (Inr ds', w') \<Rightarrow> year_loop combine inputs ys ds' w')"

text \<open>
  The whole procedure; \<open>range(start_year, end_year + 1)\<close> is the list
  \<open>[start_year..end_year]\<close>. \<open>Inl e\<close> is the exception it ends with, \<open>Inr ds\<close> the
  dataset it returns.
\<close>

definition aggregate_era5_land_timeseries ::
  "(gribds list \<Rightarrow> error + gribds) \<Rightarrow> string \<Rightarrow> string \<Rightarrow> int \<Rightarrow> int \<Rightarrow> bool \<Rightarrow> agg_world
     \<Rightarrow> (error + dataset) \<times> agg_world" where
  "aggregate_era5_land_timeseries combine inputs outputs start_year end_year save w =
     (case year_loop combine inputs [start_year..end_year] Dataset w of
        (Inl e, w') \<Rightarrow> (Inl e, w')
      | (Inr ds_variable, w') \<Rightarrow>
          (if save then
             (case to_netcdf (disk w') (output_file outputs start_year end_year) ds_variable of
                Inl e \<Rightarrow> (Inl e, w')
              | Inr fs' \<Rightarrow> (Inr ds_variable, w'\<lparr>disk := fs'\<rparr>))
           else (Inr ds_variable, w')))"

section \<open>The files between the two procedures\<close>

text \<open>
  The archive client is a library outside the repository. What is taken of it is its one
  capability, ``retrieve(dataset_name, request_descriptor, destination_path) writes file
  or fails'': a call of \<open>client.retrieve\<close> that returns has stored what the archive
  holds for the request under the destination path, so the file is listed in its
  directory, under every path that names the directory, and can be read there.
\<close>

definition call_result :: "cdsapi \<Rightarrow> string \<times> request \<times> string \<Rightarrow> error option" where
  "call_result cds c = retrieve cds (fst c) (fst (snd c)) (snd (snd c))"

definition downloaded :: "filesystem \<Rightarrow> string \<Rightarrow> gribds \<Rightarrow> filesystem" where
  "downloaded fs target g =
     (let (dirname, basename) = os_path_split target;
          in_dir = (\<lambda>d. d = dirname \<or> same_dir fs d dirname)
      in fs\<lparr> listdir := (\<lambda>d. if in_dir d \<and> basename \<notin> set (listdir fs d)
                                then listdir fs d @ [basename] else listdir fs d),
               files := (\<lambda>p. if p = target
                                  \<or> (snd (os_path_split p) = basename \<and> in_dir (fst (os_path_split p)))
                               then Some (GribFile g) else files fs p) \<rparr>)"

text \<open>
  The file system after the calls the Fetcher has issued, in their order: each call that
  returned has written its file, a call that raised has written nothing. \<open>archive\<close> is
  what the remote archive holds for a request.
\<close>

definition fetch_disk ::
  "filesystem \<Rightarrow> cdsapi \<Rightarrow> (request \<Rightarrow> gribds) \<Rightarrow> (string \<times> request \<times> string) list \<Rightarrow> filesystem" where
  "fetch_disk fs cds archive calls =
     foldl (\<lambda>fs' c. if call_result cds c = None
                     then downloaded fs' (snd (snd c)) (archive (fst (snd c))) else fs')
       fs calls"
section \<open>Reference definitions\<close>

text \<open>
  The definitions of this section are not translations of the source: they say what the
  claims compare the procedures with, or name parts of the model for the proofs.
\<close>

subsection \<open>The calendar, for the Fetcher\<close>

text \<open>
  The calendar months from one month to another, both included, in order: month
  \<open>(y, m)\<close> is number \<open>12 * y + m - 1\<close> in the sequence of all months, and the range is
  an interval of that sequence.
\<close>

definition month_index :: "date \<Rightarrow> int" where
  "month_index d = 12 * fst d + snd d - 1"

definition calendar_months :: "date \<Rightarrow> date \<Rightarrow> date list" where
  "calendar_months s e = map (\<lambda>k. (k div 12, k mod 12 + 1)) [month_index s..month_index e]"

definition valid_date :: "date \<Rightarrow> bool" where
  "valid_date d = (1 \<le> fst d \<and> fst d \<le> 9999 \<and> 1 \<le> snd d \<and> snd d \<le> 12)"

text \<open>The Gregorian rule for leap years and the length of a month.\<close>

definition leap_year :: "int \<Rightarrow> bool" where
  "leap_year y = ((4 dvd y \<and> \<not> 100 dvd y) \<or> 400 dvd y)"

definition days_in_month :: "int \<Rightarrow> int \<Rightarrow> int" where
  "days_in_month y m =
     (if m = 2 then (if leap_year y then 29 else 28)
      else if m = 4 \<or> m = 6 \<or> m = 9 \<or> m = 11 then 30 else 31)"

text \<open>The call of \<open>client.retrieve\<close> that belongs to one month.\<close>

definition month_call :: "string \<Rightarrow> string list \<Rightarrow> int list \<Rightarrow> date \<Rightarrow> string \<times> request \<times> string" where
  "month_call target_path variables area d =
     (''reanalysis-era5-land'',
      build_request variables area (fst d) (snd d) (days_in_month (fst d) (snd d)),
      target_file target_path (fst d) (snd d))"

text \<open>A remote archive where every call succeeds, and the world before a run.\<close>

definition cds_ok :: cdsapi where
  "cds_ok = \<lparr> Client = None, retrieve = (\<lambda>name req target. None) \<rparr>"

definition fetch_start :: fetch_world where
  "fetch_start = \<lparr> issued = [], fetch_stdout = [] \<rparr>"

subsection \<open>The rows a year keeps, for the Aggregator\<close>

text \<open>A row of the opened files is kept for year \<open>y\<close> when its timestamp lies in
  \<open>y\<close> and not all of its cells are missing.\<close>

definition kept :: "int \<Rightarrow> gribds \<Rightarrow> row \<Rightarrow> bool" where
  "kept y g r = (year_of (fst r) = y \<and> \<not> all_missing (grib_vars g) r)"

text \<open>What the loop has after two years with files (lines 110-113): the first year's
  cleaned dataset seeds the running dataset, the second is appended.\<close>

definition combined_two :: "int \<Rightarrow> gribds \<Rightarrow> int \<Rightarrow> gribds \<Rightarrow> dataset" where
  "combined_two y1 g1 y2 g2 =
     (if truthy (clean_year y1 g1) then xr_concat (clean_year y1 g1) (clean_year y2 g2)
      else clean_year y2 g2)"

text \<open>Two file systems give a year the same input: the same sorted list of globbed
  paths, with the same content.\<close>

definition same_inputs :: "filesystem \<Rightarrow> filesystem \<Rightarrow> string \<Rightarrow> int \<Rightarrow> bool" where
  "same_inputs fsA fsB inputs y =
     (sort (glob_glob fsA (grib_pattern inputs y)) = sort (glob_glob fsB (grib_pattern inputs y))
      \<and> (\<forall>p \<in> set (glob_glob fsA (grib_pattern inputs y)). files fsA p = files fsB p))"

subsection \<open>Names and patterns\<close>

definition digits :: "char set" where
  "digits = set ''0123456789''"

text \<open>The last component of the path the Fetcher writes and of the pattern the
  Aggregator globs.\<close>

definition grib_name :: "int \<Rightarrow> int \<Rightarrow> string" where
  "grib_name y m = str_int y @ ''_months'' @ fmt_02d m @ ''_europe.grib''"

definition year_glob :: "int \<Rightarrow> string" where
  "year_glob y = str_int y @ ''_months*_europe.grib''"

definition output_name :: "int \<Rightarrow> int \<Rightarrow> string" where
  "output_name s e = ''inflows_var_era5_'' @ str_int s @ ''to'' @ str_int e @ ''.nc''"

definition literal :: "string \<Rightarrow> bool" where
  "literal l = (CHR ''*'' \<notin> set l \<and> CHR ''?'' \<notin> set l)"

text \<open>What \<open>os.path.split\<close> makes of the part of a path up to its last slash.\<close>

definition dir_part :: "string \<Rightarrow> string" where
  "dir_part h =
     (if h \<noteq> [] \<and> \<not> list_all (\<lambda>c. c = CHR ''/'') h
      then rev (dropWhile (\<lambda>c. c = CHR ''/'') (rev h)) else h)"

text \<open>The directories \<open>glob_glob\<close> scans for the pattern of line 86, and the prefix
  \<open>os.path.join\<close> puts before a relative name.\<close>

definition glob_dirs :: "filesystem \<Rightarrow> string \<Rightarrow> string list" where
  "glob_dirs fs inputs =
     (if has_magic (dir_part (inputs @ ''/'')) then expand_dirs fs (dir_part (inputs @ ''/''))
      else [dir_part (inputs @ ''/'')])"

definition join_prefix :: "string \<Rightarrow> string" where
  "join_prefix d = (if d = [] \<or> last d = CHR ''/'' then d else d @ ''/'')"


subsection \<open>The year within the cycles, for the monotonicity of \<open>year_of\<close>\<close>

definition yr1 :: "int \<Rightarrow> int" where
  "yr1 d2 = (if 366 \<le> d2 then (d2 - 1) div 365 else 0)"

definition yr4 :: "int \<Rightarrow> int" where
  "yr4 x = 4 * (x div 1461) + yr1 (x mod 1461)"

definition yr100 :: "int \<Rightarrow> int" where
  "yr100 x = 100 * (x div 36524) + yr4 (x mod 36524 + 1)"

definition yr400 :: "int \<Rightarrow> int" where
  "yr400 d =
     (if 366 \<le> d then
        (let y100 = 100 * ((d - 1) div 36524);
             d1 = (d - 1) mod 36524
         in y100 +
            (if 365 \<le> d1 then
               (let y4 = 4 * ((d1 + 1) div 1461);
                    d2 = (d1 + 1) mod 1461
                in y4 + (if 366 \<le> d2 then (d2 - 1) div 365 else 0))
             else 0))
      else 0)"

section \<open>Example inputs\<close>

text \<open>
  Concrete inputs at which the theorems below are instantiated. The directory \<open>in\<close>
  holds what the Fetcher writes for January 2010 and January 2011; timestamps are
  nanoseconds since 1970-01-01 (2010-01-01T00:00 is 1262304000 seconds, 2011-01-01T00:00
  is 1293840000 seconds).
\<close>

definition combine_along_time :: "gribds list \<Rightarrow> error + gribds" where
  "combine_along_time gs =
     (case gs of
        [] \<Rightarrow> Inl CombineError
      | g # _ \<Rightarrow> Inr \<lparr> grib_vars = grib_vars g, grid = concat (map grid gs) \<rparr>)"

definition g2010 :: gribds where
  "g2010 = \<lparr> grib_vars = [''t2m''],
       grid = [[(1262307600000000000, [(''t2m'', [Some 271, Some 272])]),
                (1262304000000000000, [(''t2m'', [Some 270, None])])],
               [(1262311200000000000, [(''t2m'', [None, None])]),
                (1293840000000000000, [(''t2m'', [Some 280, Some 281])])]] \<rparr>"

definition g2011 :: gribds where
  "g2011 = \<lparr> grib_vars = [''t2m''],
       grid = [[(1293843600000000000, [(''t2m'', [Some 281, Some 282])]),
                (1293847200000000000, [(''t2m'', [Some 283, Some 284])])]] \<rparr>"

definition ex_fs :: filesystem where
  "ex_fs = \<lparr> listdir = (\<lambda>d. if d = ''in'' then [grib_name 2011 1, grib_name 2010 1] else []),
             expand_dirs = (\<lambda>d. []),
             same_dir = (\<lambda>a b. a = b),
             files = (\<lambda>p. if p = target_file ''in'' 2010 1 then Some (GribFile g2010)
                          else if p = target_file ''in'' 2011 1 then Some (GribFile g2011)
                          else None),
             writable = (\<lambda>p. True) \<rparr>"

definition ex_world :: agg_world where
  "ex_world = \<lparr> disk = ex_fs, stdout = [], opened = [] \<rparr>"

text \<open>A year whose files hold one timestamp twice, the dataset the example run returns,
  and the example world with unreadable files.\<close>

definition g_dup :: gribds where
  "g_dup = \<lparr> grib_vars = [''t2m''],
       grid = [[(1262304000000000000, [(''t2m'', [Some 270])]),
                (1262304000000000000, [(''t2m'', [Some 271])])]] \<rparr>"

definition ex_result :: dataset where
  "ex_result = \<lparr> data_vars = [''t2m''],
       rows = [(1262304000000000000, [(''t2m'', [Some 270, None])]),
               (1262307600000000000, [(''t2m'', [Some 271, Some 272])]),
               (1293843600000000000, [(''t2m'', [Some 281, Some 282])]),
               (1293847200000000000, [(''t2m'', [Some 283, Some 284])])] \<rparr>"

definition ex_broken :: agg_world where
  "ex_broken = \<lparr> disk = ex_fs\<lparr>files := (\<lambda>p. None)\<rparr>, stdout = [], opened = [] \<rparr>"

text \<open>A remote archive on which every retrieval fails.\<close>

definition cds_down :: cdsapi where
  "cds_down = \<lparr> Client = None, retrieve = (\<lambda>name req target. Some RetrieveError) \<rparr>"

text \<open>The world after the example run with \<open>save\<close> true, and that world with every
  directory enumerated in the opposite order.\<close>

definition ex_after :: agg_world where
  "ex_after = snd (aggregate_era5_land_timeseries combine_along_time ''in'' ''out'' 2009 2011 True ex_world)"

definition ex_again :: agg_world where
  "ex_again = ex_after\<lparr>disk := (disk ex_after)\<lparr>listdir := (\<lambda>d. rev (listdir (disk ex_after) d))\<rparr>,
                       stdout := []\<rparr>"

text \<open>A remote archive on which the retrievals of a February fail and all others succeed.\<close>

definition cds_fail_february :: cdsapi where
  "cds_fail_february =
     \<lparr> Client = None,
       retrieve = (\<lambda>name req target. if req_month req = fmt_02d 2 then Some RetrieveError else None) \<rparr>"

text \<open>
  An empty file system whose directory patterns expand to nothing, an archive, and the
  worlds the Aggregator finds after the Fetcher has run on that file system: once for
  December 2010 and January 2011 into the directory \<open>in\<close>, once for January 2010 into
  a directory whose name is \<open>d[1]\<close>.
\<close>

definition fs_empty :: filesystem where
  "fs_empty = \<lparr> listdir = (\<lambda>d. []), expand_dirs = (\<lambda>d. []), same_dir = (\<lambda>a b. a = b),
                 files = (\<lambda>p. None), writable = (\<lambda>p. True) \<rparr>"

definition ex_archive :: "request \<Rightarrow> gribds" where
  "ex_archive req = (if req_year req = str_int 2010 then g2010 else g2011)"

definition ex_fetched :: agg_world where
  "ex_fetched =
     \<lparr> disk = fetch_disk fs_empty cds_ok ex_archive
                (issued (snd (api_era5_land cds_ok ''in'' 2010 12 2011 1 [''2m_temperature'']
                                [72, - 25, 34, 45] fetch_start))),
       stdout = [], opened = [] \<rparr>"

definition ex_bracket :: agg_world where
  "ex_bracket =
     \<lparr> disk = fetch_disk fs_empty cds_ok ex_archive
                (issued (snd (api_era5_land cds_ok ''d[1]'' 2010 1 2010 1 [''2m_temperature'']
                                [72, - 25, 34, 45] fetch_start))),
       stdout = [], opened = [] \<rparr>"
section \<open>Lemmas about the Fetcher\<close>

lemma month_index_div:
  assumes "1 \<le> m" "m \<le> 12"
  shows "month_index (y, m) div 12 = y" and "month_index (y, m) mod 12 + 1 = m"
proof -
  have eq: "month_index (y, m) = 12 * y + (m - 1)" by (simp add: month_index_def)
  show "month_index (y, m) div 12 = y"
    using assms by (intro int_div_pos_eq[OF eq]) simp_all
  have "month_index (y, m) mod 12 = m - 1"
    using assms by (intro int_mod_pos_eq[OF eq]) simp_all
  then show "month_index (y, m) mod 12 + 1 = m" by simp
qed

lemma month_index_le:
  assumes "1 \<le> snd a" "snd a \<le> 12" "1 \<le> snd b" "snd b \<le> 12"
  shows "date_le a b \<longleftrightarrow> month_index a \<le> month_index b"
  using assms by (cases a; cases b) (auto simp: month_index_def)

lemma next_month_ok:
  assumes "valid_date c" "c \<noteq> (9999, 12)"
  shows "next_month c = Inr (if snd c = 12 then (fst c + 1, 1) else (fst c, snd c + 1))"
  using assms by (cases c) (auto simp: next_month_def datetime_def valid_date_def)

lemma calendar_months_step:
  assumes "valid_date c" "valid_date e" "date_le c e"
  shows "calendar_months c e = c # calendar_months (if snd c = 12 then (fst c + 1, 1) else (fst c, snd c + 1)) e"
proof -
  obtain cy cm where c: "c = (cy, cm)" by (cases c)
  have le: "month_index c \<le> month_index e"
    using assms month_index_le[of c e] by (simp add: valid_date_def)
  have nxt: "month_index (if snd c = 12 then (fst c + 1, 1) else (fst c, snd c + 1)) = month_index c + 1"
    by (auto simp: month_index_def)
  have hd: "(month_index c div 12, month_index c mod 12 + 1) = c"
    using assms(1) month_index_div[of cm cy] c by (simp add: valid_date_def)
  have "[month_index c..month_index e] = month_index c # [month_index c + 1..month_index e]"
    using le by (simp add: upto_rec1)
  then show ?thesis
    unfolding calendar_months_def nxt using hd by simp
qed

lemma calendar_months_empty:
  assumes "valid_date c" "valid_date e" "\<not> date_le c e"
  shows "calendar_months c e = []"
  using assms month_index_le[of c e] by (simp add: calendar_months_def valid_date_def)

lemma month_walk_calendar_months:
  "valid_date c \<Longrightarrow> valid_date e \<Longrightarrow> e \<noteq> (9999, 12) \<Longrightarrow>
   month_walk c e acc = Inr (acc @ calendar_months c e)"
proof (induction c e acc rule: month_walk.induct)
  case (1 current end_date date_list)
  show ?case
  proof (cases "date_le current end_date")
    case False
    with 1 show ?thesis
      by (subst month_walk.simps) (simp add: calendar_months_empty)
  next
    case True
    let ?n = "if snd current = 12 then (fst current + 1, 1) else (fst current, snd current + 1)"
    have ne: "current \<noteq> (9999, 12)"
      using True 1(3,4) by (cases end_date) (auto simp: valid_date_def)
    have nm: "next_month current = Inr ?n"
      using 1(2) ne by (rule next_month_ok)
    have vn: "valid_date ?n"
      using 1(2) ne by (cases current) (auto simp: valid_date_def)
    have "month_walk ?n end_date (date_list @ [current]) = Inr ((date_list @ [current]) @ calendar_months ?n end_date)"
      using 1(1)[OF True nm vn 1(3) 1(4)] .
    moreover have "calendar_months current end_date = current # calendar_months ?n end_date"
      using 1(2,3) True by (rule calendar_months_step)
    ultimately show ?thesis
      using True nm by (subst month_walk.simps) simp
  qed
qed

lemma isleap_leap_year: "isleap y = leap_year y"
proof -
  have "(4::int) dvd 400" by simp
  then have "400 dvd y \<Longrightarrow> 4 dvd y" by (rule dvd_trans)
  then show ?thesis by (auto simp: isleap_def leap_year_def)
qed

lemma monthrange_days_in_month:
  assumes "1 \<le> m" "m \<le> 12"
  shows "monthrange y m = Inr (days_in_month y m)"
proof -
  from assms have "m = 1 \<or> m = 2 \<or> m = 3 \<or> m = 4 \<or> m = 5 \<or> m = 6 \<or> m = 7 \<or> m = 8 \<or> m = 9
      \<or> m = 10 \<or> m = 11 \<or> m = 12" by arith
  then show ?thesis
    by (elim disjE) (simp_all add: monthrange_def mdays_def days_in_month_def isleap_leap_year)
qed

lemma retrieve_months_step:
  assumes "1 \<le> snd d" "snd d \<le> 12"
  shows "retrieve_months cds tp vars area (d # ds) w =
     (case call_result cds (month_call tp vars area d) of
        Some e \<Rightarrow> (Some e, w\<lparr>issued := issued w @ [month_call tp vars area d]\<rparr>)
      | None \<Rightarrow> retrieve_months cds tp vars area ds
          (w\<lparr>issued := issued w @ [month_call tp vars area d],
             fetch_stdout := fetch_stdout w @ [''Data downloaded to '' @ target_file tp (fst d) (snd d)]\<rparr>))"
proof -
  obtain y m where d: "d = (y, m)" by (cases d)
  have mr: "monthrange y m = Inr (days_in_month y m)"
    using assms d by (intro monthrange_days_in_month) auto
  show ?thesis
    unfolding d by (simp add: mr Let_def month_call_def call_result_def split: option.splits)
qed

lemma retrieve_months_ok:
  assumes "\<And>d. d \<in> set ds \<Longrightarrow> 1 \<le> snd d \<and> snd d \<le> 12"
    and "\<And>d. d \<in> set ds \<Longrightarrow> call_result cds (month_call tp vars area d) = None"
  shows "fst (retrieve_months cds tp vars area ds w) = None
     \<and> issued (snd (retrieve_months cds tp vars area ds w)) = issued w @ map (month_call tp vars area) ds"
  using assms
proof (induction ds arbitrary: w)
  case Nil
  show ?case by simp
next
  case (Cons d ds)
  have v: "1 \<le> snd d" "snd d \<le> 12" using Cons.prems(1)[of d] by simp_all
  have ok: "call_result cds (month_call tp vars area d) = None" using Cons.prems(2)[of d] by simp
  let ?w = "w\<lparr>issued := issued w @ [month_call tp vars area d],
             fetch_stdout := fetch_stdout w @ [''Data downloaded to '' @ target_file tp (fst d) (snd d)]\<rparr>"
  have step: "retrieve_months cds tp vars area (d # ds) w = retrieve_months cds tp vars area ds ?w"
    unfolding retrieve_months_step[OF v] ok by simp
  have "fst (retrieve_months cds tp vars area ds ?w) = None
     \<and> issued (snd (retrieve_months cds tp vars area ds ?w)) = issued ?w @ map (month_call tp vars area) ds"
    by (rule Cons.IH) (simp_all add: Cons.prems)
  then show ?case unfolding step by simp
qed

lemma retrieve_months_fail:
  assumes "\<And>d. d \<in> set ds \<Longrightarrow> 1 \<le> snd d \<and> snd d \<le> 12"
    and "k < length ds"
    and "\<And>i. i < k \<Longrightarrow> call_result cds (month_call tp vars area (ds ! i)) = None"
    and "call_result cds (month_call tp vars area (ds ! k)) = Some err"
  shows "fst (retrieve_months cds tp vars area ds w) = Some err
     \<and> issued (snd (retrieve_months cds tp vars area ds w))
         = issued w @ map (month_call tp vars area) (take (Suc k) ds)"
  using assms
proof (induction ds arbitrary: w k)
  case Nil
  then show ?case by simp
next
  case (Cons d ds)
  have v: "1 \<le> snd d" "snd d \<le> 12" using Cons.prems(1)[of d] by simp_all
  show ?case
  proof (cases k)
    case 0
    with Cons.prems(4) have "call_result cds (month_call tp vars area d) = Some err" by simp
    then show ?thesis unfolding retrieve_months_step[OF v] using 0 by simp
  next
    case (Suc j)
    have ok: "call_result cds (month_call tp vars area d) = None"
      using Cons.prems(3)[of 0] Suc by simp
    let ?w = "w\<lparr>issued := issued w @ [month_call tp vars area d],
             fetch_stdout := fetch_stdout w @ [''Data downloaded to '' @ target_file tp (fst d) (snd d)]\<rparr>"
    have step: "retrieve_months cds tp vars area (d # ds) w = retrieve_months cds tp vars area ds ?w"
      unfolding retrieve_months_step[OF v] ok by simp
    have j: "j < length ds" using Cons.prems(2) Suc by simp
    have before: "call_result cds (month_call tp vars area (ds ! i)) = None" if "i < j" for i
      using Cons.prems(3)[of "Suc i"] that Suc by simp
    have at: "call_result cds (month_call tp vars area (ds ! j)) = Some err"
      using Cons.prems(4) Suc by simp
    have "fst (retrieve_months cds tp vars area ds ?w) = Some err
     \<and> issued (snd (retrieve_months cds tp vars area ds ?w))
         = issued ?w @ map (month_call tp vars area) (take (Suc j) ds)"
      using j before at by (intro Cons.IH) (simp_all add: Cons.prems(1))
    then show ?thesis unfolding step Suc by simp
  qed
qed

lemma length_req_day:
  "0 \<le> n \<Longrightarrow> int (length (req_day (build_request vars area y m n))) = n"
  by (simp add: build_request_def)

lemma days_in_month_pos: "0 \<le> days_in_month y m"
  by (simp add: days_in_month_def)

lemma calendar_months_valid:
  "d \<in> set (calendar_months s e) \<Longrightarrow> 1 \<le> snd d \<and> snd d \<le> 12"
  by (auto simp: calendar_months_def)

lemma calendar_months_distinct: "distinct (calendar_months s e)"
proof -
  have "inj_on (\<lambda>k::int. (k div 12, k mod 12 + 1)) A" for A
  proof (rule inj_onI)
    fix a b :: int
    assume "(a div 12, a mod 12 + 1) = (b div 12, b mod 12 + 1)"
    then have "a div 12 = b div 12" "a mod 12 = b mod 12" by simp_all
    then show "a = b" by (metis div_mult_mod_eq)
  qed
  then show ?thesis
    unfolding calendar_months_def distinct_map by simp
qed

lemma calendar_months_set:
  assumes "1 \<le> snd s" "snd s \<le> 12" "1 \<le> snd e" "snd e \<le> 12"
  shows "set (calendar_months s e) = {d. 1 \<le> snd d \<and> snd d \<le> 12 \<and> date_le s d \<and> date_le d e}"
proof (intro set_eqI iffI)
  fix d assume "d \<in> set (calendar_months s e)"
  then obtain k where k: "month_index s \<le> k" "k \<le> month_index e" "d = (k div 12, k mod 12 + 1)"
    by (auto simp: calendar_months_def)
  have v: "1 \<le> snd d" "snd d \<le> 12" using k(3) by simp_all
  have "12 * (k div 12) + (k mod 12 + 1) - 1 = k" by simp
  then have "month_index d = k" using k(3) by (simp add: month_index_def)
  with k(1,2) have "date_le s d" "date_le d e"
    using month_index_le[of s d] month_index_le[of d e] v assms by simp_all
  with v show "d \<in> {d. 1 \<le> snd d \<and> snd d \<le> 12 \<and> date_le s d \<and> date_le d e}" by simp
next
  fix d assume "d \<in> {d. 1 \<le> snd d \<and> snd d \<le> 12 \<and> date_le s d \<and> date_le d e}"
  then have d: "1 \<le> snd d" "snd d \<le> 12" "date_le s d" "date_le d e" by auto
  have "(month_index d div 12, month_index d mod 12 + 1) = d"
    using month_index_div[of "snd d" "fst d"] d(1,2) by simp
  moreover have "month_index s \<le> month_index d" "month_index d \<le> month_index e"
    using d month_index_le[of s d] month_index_le[of d e] assms by simp_all
  ultimately show "d \<in> set (calendar_months s e)"
    unfolding calendar_months_def by (force simp: image_iff)
qed

section \<open>The calendar year is monotone in time\<close>

lemma cycle_mono:
  fixes g :: "int \<Rightarrow> int" and m k :: int
  assumes m: "0 < m" and k: "0 \<le> k"
    and bound: "\<And>r. 0 \<le> r \<Longrightarrow> r < m \<Longrightarrow> 0 \<le> g r \<and> g r \<le> k"
    and mono: "\<And>r s. 0 \<le> r \<Longrightarrow> r \<le> s \<Longrightarrow> s < m \<Longrightarrow> g r \<le> g s"
    and xy: "x \<le> y"
  shows "k * (x div m) + g (x mod m) \<le> k * (y div m) + g (y mod m)"
proof -
  have xm: "0 \<le> x mod m" "x mod m < m" and ym: "0 \<le> y mod m" "y mod m < m"
    using m by simp_all
  have dle: "x div m \<le> y div m" using xy m by (rule zdiv_mono1)
  show ?thesis
  proof (cases "x div m = y div m")
    case True
    have "x mod m = x - m * (x div m)" "y mod m = y - m * (y div m)"
      by (simp_all add: minus_mult_div_eq_mod)
    with True xy have "x mod m \<le> y mod m" by simp
    then have "g (x mod m) \<le> g (y mod m)" using xm ym by (intro mono)
    with True show ?thesis by simp
  next
    case False
    with dle have "x div m + 1 \<le> y div m" by simp
    then have "k * (x div m + 1) \<le> k * (y div m)" using k by (rule mult_left_mono)
    moreover have "g (x mod m) \<le> k" using bound[OF xm] by simp
    moreover have "0 \<le> g (y mod m)" using bound[OF ym] by simp
    ultimately show ?thesis by (simp add: algebra_simps)
  qed
qed

lemma yr1_bound: "0 \<le> r \<Longrightarrow> r < 1461 \<Longrightarrow> 0 \<le> yr1 r \<and> yr1 r \<le> 3"
  unfolding yr1_def by auto

lemma yr1_mono: "r \<le> s \<Longrightarrow> yr1 r \<le> yr1 s"
  unfolding yr1_def by (auto intro: zdiv_mono1)

lemma yr4_mono: "x \<le> y \<Longrightarrow> yr4 x \<le> yr4 y"
  unfolding yr4_def
proof (rule cycle_mono)
  fix r :: int assume "0 \<le> r" "r < 1461"
  then show "0 \<le> yr1 r \<and> yr1 r \<le> 4" using yr1_bound[of r] by simp
qed (simp_all add: yr1_mono)

lemma yr4_bound:
  assumes "0 \<le> x" "x \<le> 36524"
  shows "0 \<le> yr4 x \<and> yr4 x \<le> 99"
proof -
  have q: "0 \<le> x div 1461" "x div 1461 \<le> 24"
    using assms zdiv_mono1[of x 36524 1461] by (simp_all add: pos_imp_zdiv_nonneg_iff)
  have "0 \<le> yr1 (x mod 1461) \<and> yr1 (x mod 1461) \<le> 3"
    by (rule yr1_bound) simp_all
  with q show ?thesis unfolding yr4_def by simp
qed

lemma yr100_mono: "x \<le> y \<Longrightarrow> yr100 x \<le> yr100 y"
  unfolding yr100_def
proof (rule cycle_mono)
  fix r :: int assume "0 \<le> r" "r < 36524"
  then show "0 \<le> yr4 (r + 1) \<and> yr4 (r + 1) \<le> 100" using yr4_bound[of "r + 1"] by simp
next
  fix r s :: int assume "r \<le> s"
  then show "yr4 (r + 1) \<le> yr4 (s + 1)" by (intro yr4_mono) simp
qed simp_all

lemma yr100_bound:
  assumes "0 \<le> x" "x \<le> 146095"
  shows "0 \<le> yr100 x \<and> yr100 x \<le> 399"
proof -
  have q: "0 \<le> x div 36524" "x div 36524 \<le> 3"
    using assms zdiv_mono1[of x 146095 36524] by (simp_all add: pos_imp_zdiv_nonneg_iff)
  have "0 \<le> yr4 (x mod 36524 + 1) \<and> yr4 (x mod 36524 + 1) \<le> 99"
    by (rule yr4_bound) simp_all
  with q show ?thesis unfolding yr100_def by simp
qed

lemma yr4_small: "0 \<le> x \<Longrightarrow> x < 366 \<Longrightarrow> yr4 x = 0"
  by (simp add: yr4_def yr1_def)

lemma yr100_small: "0 \<le> x \<Longrightarrow> x < 365 \<Longrightarrow> yr100 x = 0"
  by (simp add: yr100_def yr4_small)

lemma yr400_eq: "0 \<le> d \<Longrightarrow> yr400 d = (if d = 0 then 0 else yr100 (d - 1))"
proof -
  assume d: "0 \<le> d"
  have inner: "(if 365 \<le> d1 then
                   (let y4 = 4 * ((d1 + 1) div 1461);
                        d2 = (d1 + 1) mod 1461
                    in y4 + (if 366 \<le> d2 then (d2 - 1) div 365 else 0))
                 else 0) = yr4 (d1 + 1)" if "0 \<le> d1" for d1 :: int
    using that by (auto simp: Let_def yr4_def yr1_def yr4_small)
  show ?thesis
  proof (cases "366 \<le> d")
    case True
    have "0 \<le> (d - 1) mod 36524" by simp
    from inner[OF this] True show ?thesis
      by (simp add: yr400_def Let_def yr100_def)
  next
    case False
    with d show ?thesis by (simp add: yr400_def yr100_small)
  qed
qed

lemma yr400_mono:
  assumes "0 \<le> r" "r \<le> s"
  shows "yr400 r \<le> yr400 s"
proof (cases "r = 0")
  case True
  have "0 \<le> yr100 (s - 1)" if "s \<noteq> 0"
  proof -
    have "yr100 0 \<le> yr100 (s - 1)" using assms that by (intro yr100_mono) simp
    then show ?thesis by (simp add: yr100_small)
  qed
  with True assms show ?thesis by (simp add: yr400_eq)
next
  case False
  with assms have "yr100 (r - 1) \<le> yr100 (s - 1)" by (intro yr100_mono) simp
  with False assms show ?thesis by (simp add: yr400_eq)
qed

lemma yr400_bound:
  assumes "0 \<le> r" "r < 146097"
  shows "0 \<le> yr400 r \<and> yr400 r \<le> 400"
proof (cases "r = 0")
  case True then show ?thesis by (simp add: yr400_eq)
next
  case False
  with assms have "0 \<le> yr100 (r - 1) \<and> yr100 (r - 1) \<le> 399" by (intro yr100_bound) simp_all
  with False assms show ?thesis by (simp add: yr400_eq)
qed

lemma days_to_year_yr400:
  "days_to_year e = 2000 + (400 * ((e - 10957) div 146097) + yr400 ((e - 10957) mod 146097))"
  by (simp add: days_to_year_def yr400_def Let_def)

lemma days_to_year_mono: "a \<le> b \<Longrightarrow> days_to_year a \<le> days_to_year b"
proof -
  assume "a \<le> b"
  then have ab: "a - 10957 \<le> b - 10957" by simp
  have "400 * ((a - 10957) div 146097) + yr400 ((a - 10957) mod 146097)
      \<le> 400 * ((b - 10957) div 146097) + yr400 ((b - 10957) mod 146097)"
    by (rule cycle_mono[OF _ _ _ _ ab]) (simp_all add: yr400_bound yr400_mono)
  then show ?thesis by (simp add: days_to_year_yr400)
qed

lemma year_of_mono: "a \<le> b \<Longrightarrow> year_of a \<le> year_of b"
  unfolding year_of_def
  by (intro days_to_year_mono zdiv_mono1) (simp_all add: ns_per_day_def)

section \<open>Lemmas about names and patterns\<close>

lemma digit_char_digit: "digit_char n \<in> digits"
  unfolding digit_char_def digits_def by (rule nth_mem) simp

lemma distinct_digits: "distinct ''0123456789''"
  by simp

lemma digit_char_inj: "a < 10 \<Longrightarrow> b < 10 \<Longrightarrow> digit_char a = digit_char b \<Longrightarrow> a = b"
  unfolding digit_char_def using nth_eq_iff_index_eq[OF distinct_digits, of a b] by simp

lemma digit_char_zero: "n < 10 \<Longrightarrow> digit_char n = CHR ''0'' \<longleftrightarrow> n = 0"
  unfolding digit_char_def using nth_eq_iff_index_eq[OF distinct_digits, of n 0] by simp

lemma str_nat_nonempty [simp]: "str_nat n \<noteq> []" "[] \<noteq> str_nat n"
  by (subst str_nat.simps, simp)+

lemma str_nat_digits: "set (str_nat n) \<subseteq> digits"
proof (induction n rule: str_nat.induct)
  case (1 n)
  show ?case
  proof (cases "n < 10")
    case True
    then show ?thesis by (subst str_nat.simps) (simp add: digit_char_digit)
  next
    case False
    with 1 show ?thesis by (subst str_nat.simps) (simp add: digit_char_digit)
  qed
qed

lemma str_nat_inj: "str_nat a = str_nat b \<Longrightarrow> a = b"
proof (induction a arbitrary: b rule: str_nat.induct)
  case (1 a)
  show ?case
  proof (cases "a < 10")
    case a: True
    show ?thesis
    proof (cases "b < 10")
      case True
      with a 1(2) show ?thesis
        by (simp add: str_nat.simps[of a] str_nat.simps[of b] digit_char_inj)
    next
      case False
      with a 1(2) show ?thesis
        by (simp add: str_nat.simps[of a] str_nat.simps[of b])
    qed
  next
    case a: False
    show ?thesis
    proof (cases "b < 10")
      case True
      with a 1(2) show ?thesis
        by (simp add: str_nat.simps[of a] str_nat.simps[of b])
    next
      case False
      with a 1(2) have eq: "str_nat (a div 10) = str_nat (b div 10)"
        and d: "digit_char (a mod 10) = digit_char (b mod 10)"
        by (simp_all add: str_nat.simps[of a] str_nat.simps[of b])
      from 1(1)[OF a eq] have "a div 10 = b div 10" .
      moreover from d have "a mod 10 = b mod 10" by (intro digit_char_inj) simp_all
      ultimately show ?thesis by (metis div_mult_mod_eq)
    qed
  qed
qed

lemma str_nat_hd_nonzero: "0 < n \<Longrightarrow> hd (str_nat n) \<noteq> CHR ''0''"
proof (induction n rule: str_nat.induct)
  case (1 n)
  show ?case
  proof (cases "n < 10")
    case True
    with 1(2) show ?thesis by (subst str_nat.simps) (simp add: digit_char_zero)
  next
    case False
    then have "0 < n div 10" by simp
    with 1(1)[OF False] have "hd (str_nat (n div 10)) \<noteq> CHR ''0''" by simp
    with False show ?thesis
      by (subst str_nat.simps) (simp add:)
  qed
qed

lemma str_nat_length_ge2: "10 \<le> n \<Longrightarrow> 2 \<le> length (str_nat n)"
  using str_nat_nonempty[of "n div 10"]
  by (subst str_nat.simps) (simp add: Suc_le_eq)

lemma str_nat_length1: "n < 10 \<Longrightarrow> str_nat n = [digit_char n]"
  by (subst str_nat.simps) simp

lemma str_int_chars: "set (str_int i) \<subseteq> insert (CHR ''-'') digits"
  using str_nat_digits by (auto simp: str_int_def)

lemma minus_not_digit: "CHR ''-'' \<notin> digits"
  by (simp add: digits_def)

lemma str_int_inj: "str_int a = str_int b \<Longrightarrow> a = b"
proof -
  assume eq: "str_int a = str_int b"
  have neg_pos: False if "x < 0" "\<not> y < 0" "str_int x = str_int y" for x y :: int
  proof -
    from that have "CHR ''-'' \<in> set (str_nat (nat y))" by (simp add: str_int_def) (metis list.set_intros(1))
    with str_nat_digits minus_not_digit show False by blast
  qed
  show ?thesis
  proof (cases "a < 0"; cases "b < 0")
    assume "a < 0" "b < 0"
    with eq have "nat (- a) = nat (- b)" by (simp add: str_int_def str_nat_inj)
    with \<open>a < 0\<close> \<open>b < 0\<close> show ?thesis by simp
  next
    assume "\<not> a < 0" "\<not> b < 0"
    with eq have "nat a = nat b" by (simp add: str_int_def str_nat_inj)
    with \<open>\<not> a < 0\<close> \<open>\<not> b < 0\<close> show ?thesis by simp
  qed (use eq neg_pos[of a b] neg_pos[of b a] in auto)
qed

lemma fmt_02d_nonneg:
  "0 \<le> i \<Longrightarrow> fmt_02d i = (if i < 10 then [CHR ''0'', digit_char (nat i)] else str_nat (nat i))"
  using str_nat_length_ge2[of "nat i"]
  by (auto simp: fmt_02d_def zfill_def str_nat_length1)

lemma fmt_02d_neg: "i < 0 \<Longrightarrow> fmt_02d i = CHR ''-'' # str_nat (nat (- i))"
  using str_nat_nonempty[of "nat (- i)"]
  by (cases "str_nat (nat (- i))") (auto simp: fmt_02d_def zfill_def)

lemma fmt_02d_inj: "fmt_02d a = fmt_02d b \<Longrightarrow> a = b"
proof -
  assume eq: "fmt_02d a = fmt_02d b"
  have hd_nonneg: "hd (fmt_02d x) \<in> digits" if "0 \<le> x" for x
    using that str_nat_digits[of "nat x"] str_nat_nonempty[of "nat x"]
    by (cases "str_nat (nat x)") (auto simp: fmt_02d_nonneg digits_def)
  have neg_pos: False if "x < 0" "0 \<le> y" "fmt_02d x = fmt_02d y" for x y
  proof -
    have "hd (fmt_02d x) = CHR ''-''" using that(1) by (simp add: fmt_02d_neg)
    with hd_nonneg[OF that(2)] that(3) minus_not_digit show False by simp
  qed
  have small_big: False if "0 \<le> x" "x < 10" "10 \<le> y" "fmt_02d x = fmt_02d y" for x y
  proof -
    from that have "hd (str_nat (nat y)) = CHR ''0''"
      by (simp add: fmt_02d_nonneg) (metis list.sel(1))
    moreover have "0 < nat y" using that by simp
    ultimately show False using str_nat_hd_nonzero by blast
  qed
  consider "a < 0" "b < 0" | "a < 0" "0 \<le> b" | "0 \<le> a" "b < 0"
    | "0 \<le> a" "a < 10" "0 \<le> b" "b < 10" | "0 \<le> a" "a < 10" "10 \<le> b"
    | "10 \<le> a" "0 \<le> b" "b < 10" | "10 \<le> a" "10 \<le> b" by linarith
  then show ?thesis
  proof cases
    case 1
    with eq have "nat (- a) = nat (- b)" by (simp add: fmt_02d_neg str_nat_inj)
    with 1 show ?thesis by simp
  next
    case 2 with eq neg_pos show ?thesis by blast
  next
    case 3 with eq neg_pos[of b a] show ?thesis by simp
  next
    case 4
    with eq have "digit_char (nat a) = digit_char (nat b)"
      by (simp add: fmt_02d_nonneg)
    then have "nat a = nat b" using 4 by (intro digit_char_inj) simp_all
    with 4 show ?thesis by simp
  next
    case 5 with eq small_big show ?thesis by blast
  next
    case 6 with eq small_big[of b a] show ?thesis by simp
  next
    case 7
    with eq have "nat a = nat b" by (simp add: fmt_02d_nonneg str_nat_inj)
    with 7 show ?thesis by simp
  qed
qed

lemma fmt_02d_chars: "set (fmt_02d i) \<subseteq> insert (CHR ''-'') digits"
proof (cases "i < 0")
  case True
  then show ?thesis using str_nat_digits[of "nat (- i)"] by (auto simp: fmt_02d_neg)
next
  case False
  then have "set (fmt_02d i) \<subseteq> insert (CHR ''0'') (set (str_nat (nat i)))"
    by (auto simp: fmt_02d_def zfill_def)
  moreover have "CHR ''0'' \<in> digits" by (simp add: digits_def)
  ultimately show ?thesis using str_nat_digits[of "nat i"] by auto
qed

lemma not_digit_or_minus:
  "c \<notin> insert (CHR ''-'') digits \<Longrightarrow> c \<notin> set (str_int i) \<and> c \<notin> set (fmt_02d i)"
  using str_int_chars[of i] fmt_02d_chars[of i] by blast

lemma special_chars:
  "CHR ''_'' \<notin> insert (CHR ''-'') digits" "CHR ''/'' \<notin> insert (CHR ''-'') digits"
  "CHR ''*'' \<notin> insert (CHR ''-'') digits" "CHR ''?'' \<notin> insert (CHR ''-'') digits"
  "CHR ''['' \<notin> insert (CHR ''-'') digits" "CHR ''.'' \<notin> insert (CHR ''-'') digits"
  by (simp_all add: digits_def)

lemma takeWhile_sep: "c \<notin> set a \<Longrightarrow> takeWhile (\<lambda>x. x \<noteq> c) (a @ c # r) = a"
  by (induction a) auto

lemma sep_unique:
  assumes "c \<notin> set a" "c \<notin> set b" "a @ c # r = b @ c # r'"
  shows "a = b \<and> r = r'"
proof -
  have "takeWhile (\<lambda>x. x \<noteq> c) (a @ c # r) = takeWhile (\<lambda>x. x \<noteq> c) (b @ c # r')"
    using assms(3) by simp
  then have "a = b" using assms(1,2) by (simp add: takeWhile_sep)
  with assms(3) show ?thesis by simp
qed

lemma target_file_grib_name: "target_file p y m = p @ CHR ''/'' # grib_name y m"
  by (simp add: target_file_def grib_name_def)

lemma grib_name_inj: "grib_name y1 m1 = grib_name y2 m2 \<longleftrightarrow> y1 = y2 \<and> m1 = m2"
proof
  assume eq: "grib_name y1 m1 = grib_name y2 m2"
  have u: "CHR ''_'' \<notin> set (str_int y1)" "CHR ''_'' \<notin> set (str_int y2)"
    using not_digit_or_minus[OF special_chars(1)] by simp_all
  from eq have "str_int y1 @ CHR ''_'' # (''months'' @ fmt_02d m1 @ ''_europe.grib'')
      = str_int y2 @ CHR ''_'' # (''months'' @ fmt_02d m2 @ ''_europe.grib'')"
    by (simp add: grib_name_def)
  from sep_unique[OF u this] have "str_int y1 = str_int y2" "fmt_02d m1 = fmt_02d m2" by simp_all
  then show "y1 = y2 \<and> m1 = m2" by (simp add: str_int_inj fmt_02d_inj)
qed simp

lemma target_file_inj: "target_file p y1 m1 = target_file p y2 m2 \<longleftrightarrow> y1 = y2 \<and> m1 = m2"
  by (simp add: target_file_grib_name grib_name_inj)

lemma fnmatch_literal_prefix:
  "literal l \<Longrightarrow> fnmatch n (l @ ps) \<longleftrightarrow> (\<exists>r. n = l @ r \<and> fnmatch r ps)"
proof (induction l arbitrary: n)
  case Nil
  then show ?case by simp
next
  case (Cons a l)
  then have l: "literal l" and a: "a \<noteq> CHR ''*''" "a \<noteq> CHR ''?''" by (auto simp: literal_def)
  show ?case
  proof (cases n)
    case Nil
    with a show ?thesis by simp
  next
    case (Cons c cs)
    with a Cons.IH[OF l, of cs] show ?thesis by auto
  qed
qed

lemma fnmatch_literal: "literal l \<Longrightarrow> fnmatch n l \<longleftrightarrow> n = l"
  using fnmatch_literal_prefix[of l n "[]"] by (cases "n = l") (auto elim: fnmatch.elims)

lemma fnmatch_star_literal:
  "literal l \<Longrightarrow> fnmatch n (CHR ''*'' # l) \<longleftrightarrow> (\<exists>x. n = x @ l)"
proof (induction n)
  case Nil
  have "fnmatch [] (CHR ''*'' # l) \<longleftrightarrow> fnmatch [] l" by simp
  also have "\<dots> \<longleftrightarrow> [] = l" using Nil by (rule fnmatch_literal)
  finally show ?case by auto
next
  case (Cons c cs)
  have "fnmatch (c # cs) (CHR ''*'' # l) \<longleftrightarrow> fnmatch (c # cs) l \<or> fnmatch cs (CHR ''*'' # l)"
    by simp
  also have "\<dots> \<longleftrightarrow> c # cs = l \<or> (\<exists>x. cs = x @ l)"
    using Cons by (simp add: fnmatch_literal)
  also have "\<dots> \<longleftrightarrow> (\<exists>x. c # cs = x @ l)"
    by (metis append_Nil append_Cons append_eq_Cons_conv)
  finally show ?case .
qed

lemma grib_pattern_year_glob: "grib_pattern inputs y = inputs @ CHR ''/'' # year_glob y"
  by (simp add: grib_pattern_def year_glob_def)

lemma literal_str_int: "literal (str_int y @ ''_months'')"
  using not_digit_or_minus[OF special_chars(3), of y] not_digit_or_minus[OF special_chars(4), of y]
  by (simp add: literal_def)

lemma fnmatch_year_glob:
  "fnmatch n (year_glob y) \<longleftrightarrow> (\<exists>x. n = str_int y @ ''_months'' @ x @ ''_europe.grib'')"
proof -
  have "year_glob y = (str_int y @ ''_months'') @ CHR ''*'' # ''_europe.grib''"
    by (simp add: year_glob_def)
  then have "fnmatch n (year_glob y) \<longleftrightarrow>
      (\<exists>r. n = (str_int y @ ''_months'') @ r \<and> fnmatch r (CHR ''*'' # ''_europe.grib''))"
    using fnmatch_literal_prefix[OF literal_str_int] by simp
  also have "\<dots> \<longleftrightarrow> (\<exists>r. n = (str_int y @ ''_months'') @ r \<and> (\<exists>x. r = x @ ''_europe.grib''))"
    by (subst fnmatch_star_literal) (simp_all add: literal_def)
  also have "\<dots> \<longleftrightarrow> (\<exists>x. n = str_int y @ ''_months'' @ x @ ''_europe.grib'')"
    by auto
  finally show ?thesis .
qed

lemma fnmatch_grib_name: "fnmatch (grib_name y m) (year_glob y') \<longleftrightarrow> y = y'"
proof
  assume "fnmatch (grib_name y m) (year_glob y')"
  then obtain x where x: "grib_name y m = str_int y' @ ''_months'' @ x @ ''_europe.grib''"
    unfolding fnmatch_year_glob by blast
  have u: "CHR ''_'' \<notin> set (str_int y)" "CHR ''_'' \<notin> set (str_int y')"
    using not_digit_or_minus[OF special_chars(1)] by simp_all
  from x have "str_int y @ CHR ''_'' # (''months'' @ fmt_02d m @ ''_europe.grib'')
      = str_int y' @ CHR ''_'' # (''months'' @ x @ ''_europe.grib'')"
    by (simp add: grib_name_def)
  from sep_unique[OF u this] show "y = y'" by (simp add: str_int_inj)
next
  assume "y = y'"
  then show "fnmatch (grib_name y m) (year_glob y')"
    unfolding fnmatch_year_glob grib_name_def by blast
qed

lemma os_path_split_snd: "CHR ''/'' \<notin> set b \<Longrightarrow> snd (os_path_split (a @ CHR ''/'' # b)) = b"
proof -
  assume "CHR ''/'' \<notin> set b"
  then have "takeWhile (\<lambda>c. c \<noteq> CHR ''/'') (rev b @ CHR ''/'' # rev a) = rev b"
    by (intro takeWhile_sep) simp
  then show ?thesis by (simp add: os_path_split_def Let_def)
qed

lemma dropWhile_sep: "c \<notin> set a \<Longrightarrow> dropWhile (\<lambda>x. x \<noteq> c) (a @ c # r) = c # r"
  by (induction a) auto

lemma os_path_split_fst:
  "CHR ''/'' \<notin> set b \<Longrightarrow> fst (os_path_split (a @ CHR ''/'' # b)) = dir_part (a @ ''/'')"
proof -
  assume "CHR ''/'' \<notin> set b"
  then have "dropWhile (\<lambda>c. c \<noteq> CHR ''/'') (rev b @ CHR ''/'' # rev a) = CHR ''/'' # rev a"
    by (intro dropWhile_sep) simp
  then show ?thesis by (simp add: os_path_split_def Let_def dir_part_def)
qed

lemma slash_grib_name: "CHR ''/'' \<notin> set (grib_name y m)"
  using not_digit_or_minus[OF special_chars(2)] by (simp add: grib_name_def)

lemma slash_year_glob: "CHR ''/'' \<notin> set (year_glob y)"
  using not_digit_or_minus[OF special_chars(2)] by (simp add: year_glob_def)

lemma split_target_file: "snd (os_path_split (target_file p y m)) = grib_name y m"
  by (simp add: target_file_grib_name os_path_split_snd slash_grib_name)

lemma split_grib_pattern:
  "os_path_split (grib_pattern inputs y) = (dir_part (inputs @ ''/''), year_glob y)"
  by (simp add: grib_pattern_year_glob os_path_split_snd os_path_split_fst slash_year_glob prod_eq_iff)

section \<open>Lemmas about globbing\<close>

lemma glob_glob_grib_pattern:
  "glob_glob fs (grib_pattern inputs y) =
     concat (map (\<lambda>d. map (os_path_join d)
                   (filter (\<lambda>n. fnmatch n (year_glob y))
                      (filter (\<lambda>n. \<not> ishidden n) (listdir fs d)))) (glob_dirs fs inputs))"
  by (simp add: glob_glob_def split_grib_pattern glob_dirs_def)



lemma fnmatch_year_glob_shape:
  assumes "fnmatch n (year_glob y)"
  shows "n \<noteq> []" "hd n \<noteq> CHR ''/''" "\<not> ishidden n" "\<exists>x. n = x @ ''_europe.grib''"
proof -
  from assms obtain x where n: "n = str_int y @ ''_months'' @ x @ ''_europe.grib''"
    unfolding fnmatch_year_glob by blast
  obtain c cs where s: "str_int y = c # cs"
    by (cases "str_int y") (auto simp: str_int_def split: if_splits)
  then have "c \<in> set (str_int y)" by simp
  then have c: "c \<noteq> CHR ''/''" "c \<noteq> CHR ''.''"
    using not_digit_or_minus[OF special_chars(2), of y] not_digit_or_minus[OF special_chars(6), of y]
    by auto
  from n s show "n \<noteq> []" by simp
  from n s c show "hd n \<noteq> CHR ''/''" by simp
  from n s c show "\<not> ishidden n" by (simp add: ishidden_def)
  from n show "\<exists>x. n = x @ ''_europe.grib''" by (metis append.assoc)
qed

lemma os_path_join_prefix: "n \<noteq> [] \<Longrightarrow> hd n \<noteq> CHR ''/'' \<Longrightarrow> os_path_join d n = join_prefix d @ n"
  by (simp add: os_path_join_def join_prefix_def)

lemma fnmatch_grib_name_self: "fnmatch (grib_name y m) (year_glob y)"
  by (simp add: fnmatch_grib_name)

lemma glob_glob_set:
  "set (glob_glob fs (grib_pattern inputs y)) =
     (\<Union>d\<in>set (glob_dirs fs inputs).
        os_path_join d ` {n \<in> set (listdir fs d). \<not> ishidden n \<and> fnmatch n (year_glob y)})"
proof -
  have "{n \<in> {n \<in> set xs. \<not> ishidden n}. fnmatch n p} = {n \<in> set xs. \<not> ishidden n \<and> fnmatch n p}"
    for xs p by blast
  then show ?thesis unfolding glob_glob_grib_pattern by simp
qed


section \<open>Lemmas about the two procedures\<close>

lemma datetime_valid: "valid_date (y, m) \<Longrightarrow> datetime y m = Inr (y, m)"
  by (simp add: datetime_def valid_date_def)

lemma datetime_Inr: "datetime y m = Inr d \<Longrightarrow> d = (y, m) \<and> valid_date (y, m)"
  by (auto simp: datetime_def valid_date_def split: if_splits)

lemma month_walk_overflow:
  "valid_date c \<Longrightarrow> date_le c (9999, 12) \<Longrightarrow> month_walk c (9999, 12) acc = Inl ValueError"
proof (induction c "(9999::int, 12::int)" acc rule: month_walk.induct)
  case (1 current date_list)
  show ?case
  proof (cases "current = (9999, 12)")
    case True
    then show ?thesis
      by (subst month_walk.simps) (simp add: next_month_def datetime_def)
  next
    case False
    let ?n = "if snd current = 12 then (fst current + 1, 1) else (fst current, snd current + 1)"
    have nm: "next_month current = Inr ?n"
      using 1(2) False by (rule next_month_ok)
    have vn: "valid_date ?n" "date_le ?n (9999, 12)"
      using 1(2,3) False by (cases current; auto simp: valid_date_def)+
    have "month_walk ?n (9999, 12) (date_list @ [current]) = Inl ValueError"
      using 1(1)[OF 1(3) nm vn] .
    with 1(3) nm show ?thesis by (subst month_walk.simps) simp
  qed
qed

lemma length_req_day_month_call:
  "int (length (req_day (fst (snd (month_call tp vars area d))))) = days_in_month (fst d) (snd d)"
  by (simp add: month_call_def length_req_day days_in_month_pos)

lemma ex_calendar: "calendar_months (2019, 12) (2020, 2) = [(2019, 12), (2020, 1), (2020, 2)]"
  by (simp add: calendar_months_def month_index_def upto_rec1)

lemma fetcher_empty_range:
  "\<not> date_le (start_year, start_month) (end_year, end_month) \<Longrightarrow>
   issued (snd (api_era5_land cds target_path start_year start_month end_year end_month variables area w))
     = issued w"
proof -
  assume after: "\<not> date_le (start_year, start_month) (end_year, end_month)"
  have "month_walk (start_year, start_month) (end_year, end_month) [] = Inr []"
    by (subst month_walk.simps) (simp only: after if_False)
  then show ?thesis
    by (auto simp: api_era5_land_def datetime_def split: sum.splits option.splits if_splits)
qed

lemma data_vars_clean_year [simp]: "data_vars (clean_year y g) = grib_vars g"
  by (simp add: clean_year_def dropna_all_def sortby_valid_time_def where_year_def stack_valid_time_def)

lemma rows_clean_year:
  "rows (clean_year y g) = sort_key fst (filter (kept y g) (concat (grid g)))"
proof -
  have "rows (clean_year y g) =
      filter (\<lambda>r. \<not> all_missing (grib_vars g) r)
        (sort_key fst (filter (\<lambda>r. year_of (fst r) = y) (concat (grid g))))"
    by (simp add: clean_year_def dropna_all_def sortby_valid_time_def where_year_def stack_valid_time_def)
  also have "\<dots> = sort_key fst
      (filter (\<lambda>r. year_of (fst r) = y \<and> \<not> all_missing (grib_vars g) r) (concat (grid g)))"
    by (simp add: filter_sort)
  also have "(\<lambda>r. year_of (fst r) = y \<and> \<not> all_missing (grib_vars g) r) = kept y g"
    by (simp add: kept_def fun_eq_iff)
  finally show ?thesis .
qed

lemma sorted_clean_year: "sorted (map fst (rows (clean_year y g)))"
  by (simp add: rows_clean_year)

lemma set_clean_year: "set (rows (clean_year y g)) = {r \<in> set (concat (grid g)). kept y g r}"
  by (simp add: rows_clean_year)

lemma mset_clean_year:
  "mset (map fst (rows (clean_year y g))) = mset (map fst (filter (kept y g) (concat (grid g))))"
  by (simp add: rows_clean_year)

lemma strict_clean_year:
  "sorted_wrt (<) (map fst (rows (clean_year y g)))
     \<longleftrightarrow> distinct (map fst (filter (kept y g) (concat (grid g))))"
  using mset_eq_imp_distinct_iff[OF mset_clean_year, of y g]
  by (simp add: strict_sorted_iff sorted_clean_year)

lemma all_missing_no_vars [simp]: "all_missing [] r"
  by (simp add: all_missing_def)

lemma clean_year_no_vars: "grib_vars g = [] \<Longrightarrow> rows (clean_year y g) = []"
  by (simp add: rows_clean_year kept_def)

lemma year_body_missing:
  "glob_glob (disk w) (grib_pattern inputs y) = [] \<Longrightarrow>
   year_body combine inputs y ds w =
     (Inr ds, w\<lparr>stdout := stdout w @ [''No file for year '' @ str_int y @ '' found in '' @ inputs]\<rparr>)"
  by (simp add: year_body_def)

lemma sort_eq_Nil [simp]: "sort xs = [] \<longleftrightarrow> xs = []"
  by (metis length_sort length_0_conv)

lemma year_body_found:
  assumes "glob_glob (disk w) (grib_pattern inputs y) \<noteq> []"
  shows "year_body combine inputs y ds w =
     (case open_mfdataset combine (disk w) (sort (glob_glob (disk w) (grib_pattern inputs y))) of
        Inl e \<Rightarrow> (Inl e, w\<lparr>stdout := stdout w @ [''Opening GRIB files for year '' @ str_int y @ ''...''],
                       opened := opened w @ sort (glob_glob (disk w) (grib_pattern inputs y))\<rparr>)
      | Inr g \<Rightarrow>
          (Inr (if truthy ds then xr_concat ds (clean_year y g) else clean_year y g),
           w\<lparr>stdout := stdout w @ [''Opening GRIB files for year '' @ str_int y @ ''...'',
                                   ''Processing year '' @ str_int y @ '' ...'',
                                   ''Filtering data for year '' @ str_int y @ '' ...'',
                                   ''Concatenating datasets...''],
             opened := opened w @ sort (glob_glob (disk w) (grib_pattern inputs y))\<rparr>))"
  using assms by (simp add: year_body_def Let_def split: sum.splits)

lemma year_body_disk [simp]: "disk (snd (year_body combine inputs y ds w)) = disk w"
  by (cases "glob_glob (disk w) (grib_pattern inputs y) = []")
    (simp_all add: year_body_missing year_body_found split: sum.splits)

lemma year_loop_disk [simp]: "disk (snd (year_loop combine inputs ys ds w)) = disk w"
proof (induction ys arbitrary: ds w)
  case Nil
  show ?case by simp
next
  case (Cons y ys)
  obtain r w' where b: "year_body combine inputs y ds w = (r, w')"
    by (cases "year_body combine inputs y ds w")
  then have d: "disk w' = disk w" using year_body_disk[of combine inputs y ds w] by simp
  show ?case
  proof (cases r)
    case (Inl e)
    with b d show ?thesis by simp
  next
    case (Inr ds')
    with b d Cons.IH[of ds' w'] show ?thesis by simp
  qed
qed

lemma year_loop_append:
  "year_loop combine inputs (xs @ ys) ds w =
     (case year_loop combine inputs xs ds w of
        (Inl e, w') \<Rightarrow> (Inl e, w')
      | (Inr ds', w') \<Rightarrow> year_loop combine inputs ys ds' w')"
proof (induction xs arbitrary: ds w)
  case Nil
  show ?case by simp
next
  case (Cons x xs)
  show ?case
    by (simp add: Cons.IH split: prod.splits sum.splits)
qed

lemma year_body_fst_cong:
  "disk w1 = disk w2 \<Longrightarrow>
   fst (year_body combine inputs y ds w1) = fst (year_body combine inputs y ds w2)"
  by (cases "glob_glob (disk w2) (grib_pattern inputs y) = []")
    (simp_all add: year_body_missing year_body_found split: sum.splits)

lemma year_loop_fst_cong:
  "disk w1 = disk w2 \<Longrightarrow>
   fst (year_loop combine inputs ys ds w1) = fst (year_loop combine inputs ys ds w2)"
proof (induction ys arbitrary: ds w1 w2)
  case Nil
  show ?case by simp
next
  case (Cons y ys)
  obtain r v1 where b1: "year_body combine inputs y ds w1 = (r, v1)"
    by (cases "year_body combine inputs y ds w1")
  have "fst (year_body combine inputs y ds w2) = r"
    using year_body_fst_cong[OF Cons.prems, of combine inputs y ds] b1 by simp
  then obtain v2 where b2: "year_body combine inputs y ds w2 = (r, v2)"
    by (cases "year_body combine inputs y ds w2") auto
  have d: "disk v1 = disk v2"
    using year_body_disk[of combine inputs y ds w1] year_body_disk[of combine inputs y ds w2]
      b1 b2 Cons.prems by simp
  show ?case
  proof (cases r)
    case (Inl e)
    with b1 b2 show ?thesis by simp
  next
    case (Inr ds')
    with b1 b2 Cons.IH[OF d, of ds'] show ?thesis by simp
  qed
qed

lemma year_loop_skip_one:
  assumes "glob_glob (disk w) (grib_pattern inputs y) = []"
  shows "fst (year_loop combine inputs (xs @ y # ys) ds w) = fst (year_loop combine inputs (xs @ ys) ds w)"
proof -
  obtain r w' where l: "year_loop combine inputs xs ds w = (r, w')"
    by (cases "year_loop combine inputs xs ds w")
  then have d: "disk w' = disk w" using year_loop_disk[of combine inputs xs ds w] by simp
  show ?thesis
  proof (cases r)
    case (Inl e)
    with l show ?thesis by (simp add: year_loop_append)
  next
    case (Inr ds')
    have "glob_glob (disk w') (grib_pattern inputs y) = []" using assms d by simp
    from year_body_missing[OF this, of combine ds']
    have "fst (year_loop combine inputs (y # ys) ds' w') =
        fst (year_loop combine inputs ys ds'
          (w'\<lparr>stdout := stdout w' @ [''No file for year '' @ str_int y @ '' found in '' @ inputs]\<rparr>))"
      by simp
    also have "\<dots> = fst (year_loop combine inputs ys ds' w')"
      by (rule year_loop_fst_cong) simp
    finally show ?thesis using l Inr by (simp add: year_loop_append)
  qed
qed

lemma upto_split_at: "s \<le> y \<Longrightarrow> y \<le> e \<Longrightarrow> [s..e] = [s..y - 1] @ y # [y + 1..e]"
  by (rule upto_split3)

lemma slash_output_name:
  "CHR ''/'' \<notin> set (''inflows_var_era5_'' @ str_int s @ ''to'' @ str_int e @ ''.nc'')"
  using not_digit_or_minus[OF special_chars(2)] by simp

lemma output_file_split:
  "os_path_split (output_file outputs s e) =
     (dir_part (outputs @ ''/''), ''inflows_var_era5_'' @ str_int s @ ''to'' @ str_int e @ ''.nc'')"
proof -
  have "output_file outputs s e =
      outputs @ CHR ''/'' # (''inflows_var_era5_'' @ str_int s @ ''to'' @ str_int e @ ''.nc'')"
    by (simp add: output_file_def)
  moreover note n = slash_output_name[of s e]
  ultimately show ?thesis
    using os_path_split_snd[OF n, of outputs] os_path_split_fst[OF n, of outputs]
    by (simp add: prod_eq_iff)
qed

lemma to_netcdf_Inr:
  assumes "writable fs path"
  shows "to_netcdf fs path ds =
     Inr (fs\<lparr> listdir := (\<lambda>d. if (d = fst (os_path_split path) \<or> same_dir fs d (fst (os_path_split path)))
                                    \<and> snd (os_path_split path) \<notin> set (listdir fs d)
                               then listdir fs d @ [snd (os_path_split path)] else listdir fs d),
               files := (\<lambda>p. if same_file fs p path then Some (NetCDFFile ds) else files fs p) \<rparr>)"
  using assms by (simp add: to_netcdf_def split_beta)

lemma to_netcdf_Inl: "\<not> writable fs path \<Longrightarrow> to_netcdf fs path ds = Inl WriteError"
  by (simp add: to_netcdf_def)

lemma same_file_refl [simp]: "same_file fs p p"
  by (simp add: same_file_def)

lemma aggregate_no_save:
  "aggregate_era5_land_timeseries combine inputs outputs s e False w =
     year_loop combine inputs [s..e] Dataset w"
  by (simp add: aggregate_era5_land_timeseries_def split: prod.splits sum.splits)

lemma aggregate_save:
  "aggregate_era5_land_timeseries combine inputs outputs s e True w =
     (case year_loop combine inputs [s..e] Dataset w of
        (Inl err, w') \<Rightarrow> (Inl err, w')
      | (Inr ds, w') \<Rightarrow>
          (case to_netcdf (disk w) (output_file outputs s e) ds of
             Inl err \<Rightarrow> (Inl err, w')
           | Inr fs' \<Rightarrow> (Inr ds, w'\<lparr>disk := fs'\<rparr>)))"
proof -
  obtain r w' where l: "year_loop combine inputs [s..e] Dataset w = (r, w')"
    by (cases "year_loop combine inputs [s..e] Dataset w")
  then have "disk w' = disk w" using year_loop_disk[of combine inputs "[s..e]" Dataset w] by simp
  with l show ?thesis
    by (simp add: aggregate_era5_land_timeseries_def split: sum.splits)
qed

lemma year_loop_skip_prefix:
  assumes "\<forall>y\<in>set ys. glob_glob (disk w) (grib_pattern inputs y) = []"
  shows "fst (year_loop combine inputs (ys @ zs) ds w) = fst (year_loop combine inputs zs ds w)"
  using assms
proof (induction ys arbitrary: w)
  case Nil
  show ?case by simp
next
  case (Cons y ys)
  let ?w = "w\<lparr>stdout := stdout w @ [''No file for year '' @ str_int y @ '' found in '' @ inputs]\<rparr>"
  have "glob_glob (disk w) (grib_pattern inputs y) = []" using Cons.prems by simp
  from year_body_missing[OF this, of combine ds]
  have "fst (year_loop combine inputs ((y # ys) @ zs) ds w) = fst (year_loop combine inputs (ys @ zs) ds ?w)"
    by simp
  also have "\<dots> = fst (year_loop combine inputs zs ds ?w)"
    using Cons.prems by (intro Cons.IH) simp
  also have "\<dots> = fst (year_loop combine inputs zs ds w)"
    by (rule year_loop_fst_cong) simp
  finally show ?case .
qed

lemma year_loop_found:
  assumes "glob_glob (disk w) (grib_pattern inputs y) \<noteq> []"
    and "open_mfdataset combine (disk w) (sort (glob_glob (disk w) (grib_pattern inputs y))) = Inr g"
  shows "\<exists>w'. disk w' = disk w \<and>
     year_loop combine inputs (y # ys) ds w =
       year_loop combine inputs ys (if truthy ds then xr_concat ds (clean_year y g) else clean_year y g) w'"
proof -
  let ?w = "w\<lparr>stdout := stdout w @ [''Opening GRIB files for year '' @ str_int y @ ''...'',
                                   ''Processing year '' @ str_int y @ '' ...'',
                                   ''Filtering data for year '' @ str_int y @ '' ...'',
                                   ''Concatenating datasets...''],
             opened := opened w @ sort (glob_glob (disk w) (grib_pattern inputs y))\<rparr>"
  have "year_body combine inputs y ds w =
      (Inr (if truthy ds then xr_concat ds (clean_year y g) else clean_year y g), ?w)"
    by (simp add: year_body_found[OF assms(1)] assms(2))
  then have "disk ?w = disk w \<and> year_loop combine inputs (y # ys) ds w =
       year_loop combine inputs ys (if truthy ds then xr_concat ds (clean_year y g) else clean_year y g) ?w"
    by simp
  then show ?thesis by (rule exI)
qed

lemma year_of_less: "year_of a < year_of b \<Longrightarrow> a < b"
  using year_of_mono[of b a] by (cases "a < b") auto

lemma two_years_loop:
  assumes "start_year \<le> y1" "y1 < y2" "y2 \<le> end_year"
    and none: "\<forall>y. start_year \<le> y \<and> y \<le> end_year \<and> y \<noteq> y1 \<and> y \<noteq> y2
                \<longrightarrow> glob_glob (disk w) (grib_pattern inputs y) = []"
    and f1: "glob_glob (disk w) (grib_pattern inputs y1) \<noteq> []"
    and o1: "open_mfdataset combine (disk w) (sort (glob_glob (disk w) (grib_pattern inputs y1))) = Inr g1"
    and f2: "glob_glob (disk w) (grib_pattern inputs y2) \<noteq> []"
    and o2: "open_mfdataset combine (disk w) (sort (glob_glob (disk w) (grib_pattern inputs y2))) = Inr g2"
  shows "fst (year_loop combine inputs [start_year..end_year] Dataset w) =
     Inr (if truthy (clean_year y1 g1) then xr_concat (clean_year y1 g1) (clean_year y2 g2)
          else clean_year y2 g2)"
proof -
  let ?d1 = "clean_year y1 g1"
  let ?D = "if truthy ?d1 then xr_concat ?d1 (clean_year y2 g2) else clean_year y2 g2"
  have split: "[start_year..end_year] = [start_year..y1 - 1] @ y1 # ([y1 + 1..y2 - 1] @ y2 # [y2 + 1..end_year])"
    using assms(1-3) upto_split_at[of start_year y1 end_year] upto_split_at[of "y1 + 1" y2 end_year]
    by simp
  have a: "\<forall>y\<in>set [start_year..y1 - 1]. glob_glob (disk w) (grib_pattern inputs y) = []"
    using none assms(1-3) by auto
  obtain w1 where w1: "disk w1 = disk w"
    "year_loop combine inputs (y1 # ([y1 + 1..y2 - 1] @ y2 # [y2 + 1..end_year])) Dataset w =
       year_loop combine inputs ([y1 + 1..y2 - 1] @ y2 # [y2 + 1..end_year]) ?d1 w1"
    using year_loop_found[OF f1 o1, of "[y1 + 1..y2 - 1] @ y2 # [y2 + 1..end_year]" Dataset]
    by (auto simp: truthy_def Dataset_def)
  have b: "\<forall>y\<in>set [y1 + 1..y2 - 1]. glob_glob (disk w1) (grib_pattern inputs y) = []"
    using none assms(1-3) w1(1) by auto
  have f2': "glob_glob (disk w1) (grib_pattern inputs y2) \<noteq> []"
    and o2': "open_mfdataset combine (disk w1) (sort (glob_glob (disk w1) (grib_pattern inputs y2))) = Inr g2"
    using f2 o2 w1(1) by simp_all
  obtain w2 where w2: "disk w2 = disk w1"
    "year_loop combine inputs (y2 # [y2 + 1..end_year]) ?d1 w1 =
       year_loop combine inputs [y2 + 1..end_year] ?D w2"
    using year_loop_found[OF f2' o2', of "[y2 + 1..end_year]" ?d1] by auto
  have c: "\<forall>y\<in>set [y2 + 1..end_year]. glob_glob (disk w2) (grib_pattern inputs y) = []"
    using none assms(1-3) w1(1) w2(1) by auto
  have "fst (year_loop combine inputs [start_year..end_year] Dataset w) =
      fst (year_loop combine inputs (y1 # ([y1 + 1..y2 - 1] @ y2 # [y2 + 1..end_year])) Dataset w)"
    unfolding split by (rule year_loop_skip_prefix[OF a])
  also have "\<dots> = fst (year_loop combine inputs ([y1 + 1..y2 - 1] @ y2 # [y2 + 1..end_year]) ?d1 w1)"
    by (simp only: w1(2))
  also have "\<dots> = fst (year_loop combine inputs (y2 # [y2 + 1..end_year]) ?d1 w1)"
    by (rule year_loop_skip_prefix[OF b])
  also have "\<dots> = fst (year_loop combine inputs [y2 + 1..end_year] ?D w2)"
    by (simp only: w2(2))
  also have "\<dots> = fst (year_loop combine inputs [] ?D w2)"
    using year_loop_skip_prefix[OF c, of combine "[]" ?D] by simp
  finally show ?thesis by simp
qed

lemma rows_two_years:
  "rows (if truthy (clean_year y1 g1) then xr_concat (clean_year y1 g1) (clean_year y2 g2)
          else clean_year y2 g2) = rows (clean_year y1 g1) @ rows (clean_year y2 g2)"
  by (auto simp: truthy_def xr_concat_def clean_year_no_vars)

lemma strict_two_years:
  assumes "y1 < y2"
    and "distinct (map fst (concat (grid g1)))" "distinct (map fst (concat (grid g2)))"
  shows "sorted_wrt (<) (map fst (rows (clean_year y1 g1) @ rows (clean_year y2 g2)))"
proof -
  have 1: "sorted_wrt (<) (map fst (rows (clean_year y1 g1)))"
    unfolding strict_clean_year using assms(2) by (rule distinct_map_filter)
  have 2: "sorted_wrt (<) (map fst (rows (clean_year y2 g2)))"
    unfolding strict_clean_year using assms(3) by (rule distinct_map_filter)
  have 3: "a < b" if "a \<in> fst ` set (rows (clean_year y1 g1))" "b \<in> fst ` set (rows (clean_year y2 g2))"
    for a b
  proof -
    from that(1) obtain r where "r \<in> set (rows (clean_year y1 g1))" "a = fst r" by blast
    then have ya: "year_of a = y1" unfolding set_clean_year kept_def by blast
    from that(2) obtain r' where "r' \<in> set (rows (clean_year y2 g2))" "b = fst r'" by blast
    then have yb: "year_of b = y2" unfolding set_clean_year kept_def by blast
    have "year_of a < year_of b" unfolding ya yb by (rule assms(1))
    then show ?thesis by (rule year_of_less)
  qed
  from 1 2 3 show ?thesis by (simp add: sorted_wrt_append)
qed

lemma aggregate_returns:
  assumes "fst (year_loop combine inputs [start_year..end_year] Dataset w) = Inr ds"
    and "save \<longrightarrow> writable (disk w) (output_file outputs start_year end_year)"
  shows "fst (aggregate_era5_land_timeseries combine inputs outputs start_year end_year save w) = Inr ds"
proof (cases save)
  case True
  with assms(2) have wr: "writable (disk w) (output_file outputs start_year end_year)" by simp
  from assms(1) True show ?thesis
    by (cases "year_loop combine inputs [start_year..end_year] Dataset w")
      (simp add: aggregate_save to_netcdf_Inr[OF wr])
next
  case False
  with assms(1) show ?thesis by (simp add: aggregate_no_save)
qed

lemma output_file_split': "os_path_split (output_file outputs s e) = (dir_part (outputs @ ''/''), output_name s e)"
  by (simp add: output_file_split output_name_def)

lemma output_file_last: "last (output_file outputs s e) = CHR ''c''"
  by (simp add: output_file_def)

lemma output_name_last: "last (output_name s e) = CHR ''c''"
  by (simp add: output_name_def)

lemma fnmatch_year_glob_last: "fnmatch n (year_glob y) \<Longrightarrow> last n = CHR ''b''"
  unfolding fnmatch_year_glob by auto

lemma output_name_no_match: "\<not> fnmatch (output_name s e) (year_glob y)"
  using fnmatch_year_glob_last[of "output_name s e" y] output_name_last[of s e] by auto

lemma os_path_split_snd_append:
  "CHR ''/'' \<notin> set s \<Longrightarrow> snd (os_path_split (q @ s)) = snd (os_path_split q) @ s"
proof -
  assume "CHR ''/'' \<notin> set s"
  then have "takeWhile (\<lambda>c. c \<noteq> CHR ''/'') (rev s @ rev q) = rev s @ takeWhile (\<lambda>c. c \<noteq> CHR ''/'') (rev q)"
    by (intro takeWhile_append2) auto
  then show ?thesis by (simp add: os_path_split_def Let_def)
qed

lemma globbed_path_shape:
  assumes "p \<in> set (glob_glob fs (grib_pattern inputs y))"
  shows "last p = CHR ''b''" "last (snd (os_path_split p)) = CHR ''b''"
proof -
  from assms obtain d n where n: "fnmatch n (year_glob y)" "p = os_path_join d n"
    unfolding glob_glob_set by blast
  from n(1) obtain x where x: "n = x @ ''_europe.grib''"
    using fnmatch_year_glob_shape(4) by blast
  have "p = join_prefix d @ n"
    unfolding n(2) using fnmatch_year_glob_shape(1,2)[OF n(1)] by (rule os_path_join_prefix)
  then have p: "p = (join_prefix d @ x) @ ''_europe.grib''" using x by simp
  show "last p = CHR ''b''" unfolding p by simp
  have "snd (os_path_split p) = snd (os_path_split (join_prefix d @ x)) @ ''_europe.grib''"
    unfolding p by (rule os_path_split_snd_append) simp
  then show "last (snd (os_path_split p)) = CHR ''b''" by simp
qed

lemma globbed_path_not_output:
  assumes "p \<in> set (glob_glob fs (grib_pattern inputs y))"
  shows "\<not> same_file fs' p (output_file outputs s e)"
proof
  assume "same_file fs' p (output_file outputs s e)"
  then have "p = output_file outputs s e \<or> snd (os_path_split p) = output_name s e"
    by (auto simp: same_file_def output_file_split')
  then have "last p = CHR ''c'' \<or> last (snd (os_path_split p)) = CHR ''c''"
    using output_file_last[of outputs s e] output_name_last[of s e] by auto
  with globbed_path_shape[OF assms] show False by simp
qed

lemma glob_mset_cong:
  assumes "expand_dirs fsB = expand_dirs fsA"
    and "\<And>d. mset (filter (\<lambda>n. fnmatch n (year_glob y)) (filter (\<lambda>n. \<not> ishidden n) (listdir fsB d)))
            = mset (filter (\<lambda>n. fnmatch n (year_glob y)) (filter (\<lambda>n. \<not> ishidden n) (listdir fsA d)))"
  shows "mset (glob_glob fsB (grib_pattern inputs y)) = mset (glob_glob fsA (grib_pattern inputs y))"
proof -
  let ?F = "\<lambda>fs d. map (os_path_join d)
      (filter (\<lambda>n. fnmatch n (year_glob y)) (filter (\<lambda>n. \<not> ishidden n) (listdir fs d)))"
  have d: "glob_dirs fsB inputs = glob_dirs fsA inputs"
    using assms(1) by (simp add: glob_dirs_def)
  have key: "mset (?F fsB d) = mset (?F fsA d)" for d
    unfolding mset_map assms(2) ..
  have "map mset (map (?F fsB) (glob_dirs fsA inputs)) = map mset (map (?F fsA) (glob_dirs fsA inputs))"
    unfolding map_map o_def key ..
  then have "sum_list (map mset (map (?F fsB) (glob_dirs fsA inputs)))
      = sum_list (map mset (map (?F fsA) (glob_dirs fsA inputs)))"
    by (rule arg_cong)
  then show ?thesis
    unfolding glob_glob_grib_pattern d mset_concat .
qed

lemma sort_mset_cong: "mset xs = mset ys \<Longrightarrow> sort xs = sort ys"
  by (rule properties_for_sort) simp_all

lemma read_gribs_cong:
  "(\<And>p. p \<in> set ps \<Longrightarrow> files fsA p = files fsB p) \<Longrightarrow> read_gribs fsA ps = read_gribs fsB ps"
proof (induction ps)
  case Nil
  show ?case by simp
next
  case (Cons p ps)
  have a: "files fsA p = files fsB p" by (rule Cons.prems) simp
  have b: "read_gribs fsA ps = read_gribs fsB ps"
    by (rule Cons.IH) (simp add: Cons.prems)
  show ?case unfolding read_gribs.simps a b ..
qed

lemma year_body_same_inputs:
  assumes "same_inputs (disk wA) (disk wB) inputs y"
  shows "fst (year_body combine inputs y ds wA) = fst (year_body combine inputs y ds wB)"
proof -
  let ?G = "sort (glob_glob (disk wA) (grib_pattern inputs y))"
  have g: "sort (glob_glob (disk wB) (grib_pattern inputs y)) = ?G"
    using assms unfolding same_inputs_def by (rule conjunct1[THEN sym])
  have f: "files (disk wA) p = files (disk wB) p" if "p \<in> set ?G" for p
  proof -
    from that have "p \<in> set (glob_glob (disk wA) (grib_pattern inputs y))" by (simp only: set_sort)
    with assms show ?thesis unfolding same_inputs_def by blast
  qed
  have "read_gribs (disk wA) ?G = read_gribs (disk wB) ?G"
    by (rule read_gribs_cong) (rule f)
  then have o: "open_mfdataset combine (disk wA) ?G = open_mfdataset combine (disk wB) ?G"
    by (simp add: open_mfdataset_def)
  show ?thesis
    unfolding year_body_def Let_def g o by (simp split: sum.splits)
qed

lemma year_loop_same_inputs:
  assumes "\<forall>y \<in> set ys. same_inputs (disk wA) (disk wB) inputs y"
  shows "fst (year_loop combine inputs ys ds wA) = fst (year_loop combine inputs ys ds wB)"
  using assms
proof (induction ys arbitrary: ds wA wB)
  case Nil
  show ?case by simp
next
  case (Cons y ys)
  obtain r vA where bA: "year_body combine inputs y ds wA = (r, vA)"
    by (cases "year_body combine inputs y ds wA")
  have "fst (year_body combine inputs y ds wB) = r"
    using year_body_same_inputs[of wA wB inputs y combine ds] Cons.prems bA by simp
  then obtain vB where bB: "year_body combine inputs y ds wB = (r, vB)"
    by (cases "year_body combine inputs y ds wB") auto
  have d: "disk vA = disk wA" "disk vB = disk wB"
    using year_body_disk[of combine inputs y ds wA] year_body_disk[of combine inputs y ds wB] bA bB
    by simp_all
  show ?case
  proof (cases r)
    case (Inl err)
    with bA bB show ?thesis by simp
  next
    case (Inr ds')
    have "fst (year_loop combine inputs ys ds' vA) = fst (year_loop combine inputs ys ds' vB)"
      using Cons.prems d by (intro Cons.IH) simp
    with bA bB Inr show ?thesis by simp
  qed
qed

lemma written_same_inputs:
  assumes wr: "to_netcdf fs (output_file outputs s e) ds = Inr fs1"
    and l: "\<forall>d. mset (listdir fs2 d) = mset (listdir fs1 d)"
    and x: "expand_dirs fs2 = expand_dirs fs1" and f: "files fs2 = files fs1"
  shows "same_inputs fs fs2 inputs y"
proof -
  have w: "writable fs (output_file outputs s e)"
    using wr by (auto simp: to_netcdf_def split: if_splits)
  note fs1 = wr[unfolded to_netcdf_Inr[OF w] output_file_split' fst_conv snd_conv, simplified, symmetric]
  have x1: "expand_dirs fs1 = expand_dirs fs" unfolding fs1 by simp
  have l1: "listdir fs1 d = listdir fs d \<or> listdir fs1 d = listdir fs d @ [output_name s e]" for d
    unfolding fs1 by simp
  have f1: "files fs1 p = (if same_file fs p (output_file outputs s e) then Some (NetCDFFile ds) else files fs p)" for p
    unfolding fs1 by simp
  let ?P = "\<lambda>n. fnmatch n (year_glob y)" and ?H = "\<lambda>n. \<not> ishidden n"
  have m: "mset (filter ?P (filter ?H (listdir fs2 d))) = mset (filter ?P (filter ?H (listdir fs d)))" for d
  proof -
    have "mset (filter ?P (filter ?H (listdir fs2 d))) = filter_mset ?P (filter_mset ?H (mset (listdir fs2 d)))"
      by (simp only: mset_filter)
    also have "\<dots> = filter_mset ?P (filter_mset ?H (mset (listdir fs1 d)))"
      using l by (simp only:)
    also have "\<dots> = mset (filter ?P (filter ?H (listdir fs1 d)))"
      by (simp only: mset_filter)
    also have "\<dots> = mset (filter ?P (filter ?H (listdir fs d)))"
      using l1[of d] output_name_no_match[of s e y] by auto
    finally show ?thesis .
  qed
  have "mset (glob_glob fs2 (grib_pattern inputs y)) = mset (glob_glob fs (grib_pattern inputs y))"
    using x x1 m by (intro glob_mset_cong) simp_all
  then have 1: "sort (glob_glob fs (grib_pattern inputs y)) = sort (glob_glob fs2 (grib_pattern inputs y))"
    by (intro sort_mset_cong) simp
  have 2: "files fs p = files fs2 p" if "p \<in> set (glob_glob fs (grib_pattern inputs y))" for p
    using globbed_path_not_output[OF that, of fs outputs s e] f f1[of p] by simp
  from 1 2 show ?thesis by (simp add: same_inputs_def)
qed

lemma aggregate_save_Inr:
  assumes "aggregate_era5_land_timeseries combine inputs outputs s e True w = (Inr ds, w1)"
  shows "fst (year_loop combine inputs [s..e] Dataset w) = Inr ds"
    and "to_netcdf (disk w) (output_file outputs s e) ds = Inr (disk w1)"
proof -
  obtain r w' where l: "year_loop combine inputs [s..e] Dataset w = (r, w')"
    by (cases "year_loop combine inputs [s..e] Dataset w")
  from assms l have r: "r = Inr ds"
    by (cases r) (auto simp: aggregate_save split: sum.splits)
  with l show "fst (year_loop combine inputs [s..e] Dataset w) = Inr ds" by simp
  from assms l r show "to_netcdf (disk w) (output_file outputs s e) ds = Inr (disk w1)"
    by (auto simp: aggregate_save split: sum.splits)
qed

section \<open>The example inputs evaluated\<close>

lemma ex_dir [simp]: "dir_part ''in/'' = ''in''"
  by (simp add: dir_part_def)

lemma ex_no_magic [simp]: "\<not> has_magic ''in''"
  by (simp add: has_magic_def)

lemma ex_glob_dirs [simp]: "glob_dirs fs ''in'' = [''in'']"
  by (simp add: glob_dirs_def)

lemma not_hidden_grib_name [simp]: "\<not> ishidden (grib_name y m)"
  using fnmatch_year_glob_shape(3)[OF fnmatch_grib_name_self] .

lemma ex_join [simp]: "os_path_join ''in'' (grib_name y m) = target_file ''in'' y m"
  using os_path_join_prefix[OF fnmatch_year_glob_shape(1,2)[OF fnmatch_grib_name_self], where d = "''in''"]
  by (simp add: join_prefix_def target_file_grib_name)

lemma ex_fs_simps [simp]:
  "listdir ex_fs d = (if d = ''in'' then [grib_name 2011 1, grib_name 2010 1] else [])"
  "expand_dirs ex_fs d = []"
  "same_dir ex_fs a b = (a = b)"
  "files ex_fs p = (if p = target_file ''in'' 2010 1 then Some (GribFile g2010)
                          else if p = target_file ''in'' 2011 1 then Some (GribFile g2011)
                          else None)"
  "writable ex_fs p"
  by (simp_all add: ex_fs_def)

lemma ex_glob:
  "glob_glob ex_fs (grib_pattern ''in'' y) =
     (if y = 2011 then [target_file ''in'' 2011 1]
      else if y = 2010 then [target_file ''in'' 2010 1] else [])"
  by (simp add: glob_glob_grib_pattern fnmatch_grib_name)

lemma ex_years:
  "year_of 1262304000000000000 = 2010" "year_of 1262307600000000000 = 2010"
  "year_of 1262311200000000000 = 2010" "year_of 1293840000000000000 = 2011"
  "year_of 1293843600000000000 = 2011" "year_of 1293847200000000000 = 2011"
  by (simp_all add: year_of_def ns_per_day_def days_to_year_def Let_def)

lemma ex_clean_2010:
  "clean_year 2010 g2010 = \<lparr> data_vars = [''t2m''],
       rows = [(1262304000000000000, [(''t2m'', [Some 270, None])]),
               (1262307600000000000, [(''t2m'', [Some 271, Some 272])])] \<rparr>"
  by (simp add: clean_year_def dropna_all_def sortby_valid_time_def where_year_def stack_valid_time_def
      g2010_def ex_years all_missing_def var_cells_def)

lemma ex_clean_2011:
  "clean_year 2011 g2011 = \<lparr> data_vars = [''t2m''],
       rows = [(1293843600000000000, [(''t2m'', [Some 281, Some 282])]),
               (1293847200000000000, [(''t2m'', [Some 283, Some 284])])] \<rparr>"
  by (simp add: clean_year_def dropna_all_def sortby_valid_time_def where_year_def stack_valid_time_def
      g2011_def ex_years all_missing_def var_cells_def)

lemma ex_clean_dup:
  "clean_year 2010 g_dup = \<lparr> data_vars = [''t2m''],
       rows = [(1262304000000000000, [(''t2m'', [Some 270])]),
               (1262304000000000000, [(''t2m'', [Some 271])])] \<rparr>"
  by (simp add: clean_year_def dropna_all_def sortby_valid_time_def where_year_def stack_valid_time_def
      g_dup_def ex_years all_missing_def var_cells_def)

lemma ex_open:
  "open_mfdataset combine_along_time ex_fs [target_file ''in'' 2010 1] = Inr g2010"
  "open_mfdataset combine_along_time ex_fs [target_file ''in'' 2011 1] = Inr g2011"
  by (simp_all add: open_mfdataset_def combine_along_time_def target_file_inj g2010_def g2011_def)

lemma ex_world_simps [simp]: "disk ex_world = ex_fs" "stdout ex_world = []" "opened ex_world = []"
  by (simp_all add: ex_world_def)

lemma ex_upto: "[2009..2011] = [2009, 2010, 2011 :: int]" "[2010..2011] = [2010, 2011 :: int]"
  "[2009..2008] = ([] :: int list)"
  by (simp_all add: upto_rec1)

lemma ex_loop:
  "year_loop combine_along_time ''in'' [2009, 2010, 2011] Dataset ex_world =
     (Inr ex_result,
      \<lparr> disk = ex_fs,
        stdout = [''No file for year '' @ str_int 2009 @ '' found in in'',
                  ''Opening GRIB files for year '' @ str_int 2010 @ ''...'',
                  ''Processing year '' @ str_int 2010 @ '' ...'',
                  ''Filtering data for year '' @ str_int 2010 @ '' ...'',
                  ''Concatenating datasets...'',
                  ''Opening GRIB files for year '' @ str_int 2011 @ ''...'',
                  ''Processing year '' @ str_int 2011 @ '' ...'',
                  ''Filtering data for year '' @ str_int 2011 @ '' ...'',
                  ''Concatenating datasets...''],
        opened = [target_file ''in'' 2010 1, target_file ''in'' 2011 1] \<rparr>)"
  by (simp add: year_body_def ex_glob ex_open ex_clean_2010 ex_clean_2011 Dataset_def truthy_def
      xr_concat_def ex_result_def ex_world_def)

lemma ex_broken_simps [simp]:
  "disk ex_broken = ex_fs\<lparr>files := (\<lambda>p. None)\<rparr>" "stdout ex_broken = []" "opened ex_broken = []"
  by (simp_all add: ex_broken_def)

lemma ex_glob_broken:
  "glob_glob (ex_fs\<lparr>files := f\<rparr>) (grib_pattern ''in'' y) = glob_glob ex_fs (grib_pattern ''in'' y)"
  by (simp add: glob_glob_grib_pattern glob_dirs_def)

lemma ex_run: "fst (aggregate_era5_land_timeseries combine_along_time ''in'' ''out'' 2009 2011 False ex_world)
       = Inr ex_result"
  unfolding aggregate_no_save ex_upto ex_loop by simp

lemma ex_loop2:
  "fst (year_loop combine_along_time ''in'' [2010, 2011] Dataset ex_world) = Inr ex_result"
  by (simp add: year_body_def ex_glob ex_open ex_clean_2010 ex_clean_2011 Dataset_def truthy_def
      xr_concat_def ex_result_def ex_world_def)

lemma ex_combined: "combined_two 2010 g2010 2011 g2011 = ex_result"
  by (simp add: combined_two_def ex_clean_2010 ex_clean_2011 truthy_def xr_concat_def ex_result_def)

lemma ex_distinct:
  "distinct (map fst (concat (grid g2010)))" "distinct (map fst (concat (grid g2011)))"
  "distinct (map fst (concat (grid g2010) @ concat (grid g2011)))"
  by (simp_all add: g2010_def g2011_def)

section \<open>Lemmas about the round trip through the file system\<close>

subsection \<open>The path of a downloaded file\<close>

lemma split_target_file_fst: "fst (os_path_split (target_file p y m)) = dir_part (p @ ''/'')"
  by (simp add: target_file_grib_name os_path_split_fst slash_grib_name)
















subsection \<open>The paths the Aggregator opens\<close>







subsection \<open>The calls of the Fetcher and the files they leave\<close>










subsection \<open>The example runs\<close>

lemma ex_calendar_spring:
  "calendar_months (2019, 12) (2020, 3) = [(2019, 12), (2020, 1), (2020, 2), (2020, 3)]"
  by (simp add: calendar_months_def month_index_def upto_rec1)

lemma cds_fail_february_result:
  "call_result cds_fail_february (month_call tp vars area d)
     = (if snd d = 2 then Some RetrieveError else None)"
  using fmt_02d_inj[of "snd d" 2]
  by (auto simp: call_result_def cds_fail_february_def month_call_def build_request_def)




lemma ex_archive_simps [simp]:
  "ex_archive (build_request vars area 2010 m n) = g2010"
  "ex_archive (build_request vars area 2011 m n) = g2011"
  using str_int_inj[of 2011 2010] by (auto simp: ex_archive_def build_request_def)

lemma split_target_in [simp]:
  "os_path_split (target_file ''in'' y m) = (''in'', grib_name y m)"
  by (simp add: prod_eq_iff split_target_file split_target_file_fst)






lemma ex_fetched_simps [simp]: "stdout ex_fetched = []" "opened ex_fetched = []"
  by (simp_all add: ex_fetched_def)







lemma ex_bracket_simps [simp]: "stdout ex_bracket = []" "opened ex_bracket = []"
  by (simp_all add: ex_bracket_def)

section \<open>The claims\<close>

text \<open>
  Claim C1, as the code has it. Take valid dates with the start not after the end and
  the end before December 9999, and a client that can be set up. If none of the
  retrievals of the months of the range fails, the Fetcher returns and has issued exactly
  the calls of the calendar months of the range, in order. If the retrieval of some month
  is the first to fail, the Fetcher has issued exactly the calls of the months up to and
  including that one, in order, and ends with the exception of that retrieval. The
  months of the range are pairwise distinct, they are exactly the months between the two
  dates (both included), and the day list of each call is as long as its month, 29 for
  February of a leap year.
\<close>

theorem fetcher_one_request_per_month:
  assumes "valid_date (start_year, start_month)" and "valid_date (end_year, end_month)"
    and "date_le (start_year, start_month) (end_year, end_month)"
    and "(end_year, end_month) \<noteq> (9999, 12)"
    and "Client cds = None"
  shows "((\<forall>d \<in> set (calendar_months (start_year, start_month) (end_year, end_month)).
           call_result cds (month_call target_path variables area d) = None) \<longrightarrow>
         fst (api_era5_land cds target_path start_year start_month end_year end_month variables area w) = None
         \<and> issued (snd (api_era5_land cds target_path start_year start_month end_year end_month variables area w))
             = issued w @ map (month_call target_path variables area)
                            (calendar_months (start_year, start_month) (end_year, end_month)))
    \<and> (\<forall>k err.
          k < length (calendar_months (start_year, start_month) (end_year, end_month))
          \<and> (\<forall>i<k. call_result cds (month_call target_path variables area
                       (calendar_months (start_year, start_month) (end_year, end_month) ! i)) = None)
          \<and> call_result cds (month_call target_path variables area
                (calendar_months (start_year, start_month) (end_year, end_month) ! k)) = Some err
          \<longrightarrow>
          fst (api_era5_land cds target_path start_year start_month end_year end_month variables area w) = Some err
          \<and> issued (snd (api_era5_land cds target_path start_year start_month end_year end_month variables area w))
              = issued w @ map (month_call target_path variables area)
                  (take (Suc k) (calendar_months (start_year, start_month) (end_year, end_month))))
    \<and> distinct (calendar_months (start_year, start_month) (end_year, end_month))
    \<and> set (calendar_months (start_year, start_month) (end_year, end_month))
        = {d. 1 \<le> snd d \<and> snd d \<le> 12 \<and> date_le (start_year, start_month) d \<and> date_le d (end_year, end_month)}
    \<and> map (\<lambda>c. int (length (req_day (fst (snd c)))))
          (map (month_call target_path variables area)
             (calendar_months (start_year, start_month) (end_year, end_month)))
        = map (\<lambda>d. days_in_month (fst d) (snd d))
            (calendar_months (start_year, start_month) (end_year, end_month))"
proof -
  let ?s = "(start_year, start_month)" and ?e = "(end_year, end_month)"
  let ?ms = "calendar_months ?s ?e"
  let ?R = "api_era5_land cds target_path start_year start_month end_year end_month variables area w"
  have walk: "month_walk ?s ?e [] = Inr ?ms"
    using month_walk_calendar_months[OF assms(1,2,4), of "[]"] by simp
  have run: "?R = retrieve_months cds target_path variables area ?ms w"
    by (simp add: api_era5_land_def datetime_valid[OF assms(1)] datetime_valid[OF assms(2)] walk assms(5))
  have v: "\<And>d. d \<in> set ?ms \<Longrightarrow> 1 \<le> snd d \<and> snd d \<le> 12"
    by (rule calendar_months_valid)
  have 1: "fst ?R = None \<and> issued (snd ?R) = issued w @ map (month_call target_path variables area) ?ms"
    if "\<forall>d \<in> set ?ms. call_result cds (month_call target_path variables area d) = None"
    unfolding run using v that by (intro retrieve_months_ok) blast+
  have 2: "fst ?R = Some err
      \<and> issued (snd ?R) = issued w @ map (month_call target_path variables area) (take (Suc k) ?ms)"
    if "k < length ?ms"
      "\<forall>i<k. call_result cds (month_call target_path variables area (?ms ! i)) = None"
      "call_result cds (month_call target_path variables area (?ms ! k)) = Some err" for k err
    unfolding run using v that by (intro retrieve_months_fail) blast+
  have 3: "distinct ?ms" by (rule calendar_months_distinct)
  have 4: "set ?ms = {d. 1 \<le> snd d \<and> snd d \<le> 12 \<and> date_le ?s d \<and> date_le d ?e}"
    using assms(1,2) by (intro calendar_months_set) (simp_all add: valid_date_def)
  have 5: "map (\<lambda>c. int (length (req_day (fst (snd c))))) (map (month_call target_path variables area) ?ms)
        = map (\<lambda>d. days_in_month (fst d) (snd d)) ?ms"
    by (simp add: length_req_day_month_call o_def)
  from 1 2 3 4 5 show ?thesis by blast
qed

theorem fetcher_one_request_per_month_witness:
  "valid_date (2019, 12) \<and> valid_date (2020, 3) \<and> date_le (2019, 12) (2020, 3)
   \<and> ((2020, 3) :: date) \<noteq> (9999, 12) \<and> Client cds_ok = None \<and> Client cds_fail_february = None
   \<and> fst (api_era5_land cds_ok ''data'' 2019 12 2020 3 [''2m_temperature''] [90, - 180, - 90, 180] fetch_start)
       = None
   \<and> map (\<lambda>c. (req_year (fst (snd c)), req_month (fst (snd c)), int (length (req_day (fst (snd c))))))
        (issued (snd (api_era5_land cds_ok ''data'' 2019 12 2020 3 [''2m_temperature'']
                   [90, - 180, - 90, 180] fetch_start)))
      = [(str_int 2019, fmt_02d 12, 31), (str_int 2020, fmt_02d 1, 31), (str_int 2020, fmt_02d 2, 29),
         (str_int 2020, fmt_02d 3, 31)]
   \<and> fst (api_era5_land cds_fail_february ''data'' 2019 12 2020 3 [''2m_temperature'']
            [90, - 180, - 90, 180] fetch_start)
       = Some RetrieveError
   \<and> map (\<lambda>c. (req_year (fst (snd c)), req_month (fst (snd c)), int (length (req_day (fst (snd c))))))
        (issued (snd (api_era5_land cds_fail_february ''data'' 2019 12 2020 3 [''2m_temperature'']
                   [90, - 180, - 90, 180] fetch_start)))
      = [(str_int 2019, fmt_02d 12, 31), (str_int 2020, fmt_02d 1, 31), (str_int 2020, fmt_02d 2, 29)]"
proof -
  let ?V = "[''2m_temperature'']" and ?A = "[90, - 180, - 90, 180] :: int list"
  let ?ms = "calendar_months (2019, 12) (2020, 3)"
  have h: "valid_date (2019, 12)" "valid_date (2020, 3)" "date_le (2019, 12) (2020, 3)"
    "((2020, 3) :: date) \<noteq> (9999, 12)"
    by (simp_all add: valid_date_def)
  have c: "Client cds_ok = None" "Client cds_fail_february = None"
    by (simp_all add: cds_ok_def cds_fail_february_def)
  have d: "days_in_month 2019 12 = 31" "days_in_month 2020 1 = 31" "days_in_month 2020 2 = 29"
    "days_in_month 2020 3 = 31"
    by (simp_all add: days_in_month_def leap_year_def)
  have ok: "\<forall>d \<in> set ?ms. call_result cds_ok (month_call ''data'' ?V ?A d) = None"
    by (simp add: call_result_def cds_ok_def)
  have before: "call_result cds_fail_february (month_call ''data'' ?V ?A (?ms ! i)) = None"
    if "i < 2" for i
  proof -
    from that have "i = 0 \<or> i = 1" by arith
    then show ?thesis by (auto simp: ex_calendar_spring cds_fail_february_result)
  qed
  have fail: "2 < length ?ms
      \<and> (\<forall>i<2. call_result cds_fail_february (month_call ''data'' ?V ?A (?ms ! i)) = None)
      \<and> call_result cds_fail_february (month_call ''data'' ?V ?A (?ms ! 2)) = Some RetrieveError"
    using before by (simp add: ex_calendar_spring cds_fail_february_result)
  note t1 = fetcher_one_request_per_month [OF h c(1), of "''data''" ?V ?A fetch_start]
  note t2 = fetcher_one_request_per_month [OF h c(2), of "''data''" ?V ?A fetch_start]
  from t1 ok have r1:
    "fst (api_era5_land cds_ok ''data'' 2019 12 2020 3 ?V ?A fetch_start) = None"
    "issued (snd (api_era5_land cds_ok ''data'' 2019 12 2020 3 ?V ?A fetch_start))
       = issued fetch_start @ map (month_call ''data'' ?V ?A) ?ms"
    by blast+
  from t2 fail have r2:
    "fst (api_era5_land cds_fail_february ''data'' 2019 12 2020 3 ?V ?A fetch_start) = Some RetrieveError"
    "issued (snd (api_era5_land cds_fail_february ''data'' 2019 12 2020 3 ?V ?A fetch_start))
       = issued fetch_start @ map (month_call ''data'' ?V ?A) (take (Suc 2) ?ms)"
    by blast+
  have m1: "map (\<lambda>c. (req_year (fst (snd c)), req_month (fst (snd c)), int (length (req_day (fst (snd c))))))
        (issued fetch_start @ map (month_call ''data'' ?V ?A) ?ms)
      = [(str_int 2019, fmt_02d 12, 31), (str_int 2020, fmt_02d 1, 31), (str_int 2020, fmt_02d 2, 29),
         (str_int 2020, fmt_02d 3, 31)]"
    by (simp add: ex_calendar_spring fetch_start_def month_call_def build_request_def d)
  have m2: "map (\<lambda>c. (req_year (fst (snd c)), req_month (fst (snd c)), int (length (req_day (fst (snd c))))))
        (issued fetch_start @ map (month_call ''data'' ?V ?A) (take (Suc 2) ?ms))
      = [(str_int 2019, fmt_02d 12, 31), (str_int 2020, fmt_02d 1, 31), (str_int 2020, fmt_02d 2, 29)]"
    by (simp add: ex_calendar_spring fetch_start_def month_call_def build_request_def d)
  from h c r1(1) r2(1) m1 m2 show ?thesis unfolding r1(2) r2(2) by blast
qed

text \<open>
  Claim C1 as stated fails at two inputs. For the range from December 9999 to December
  9999 the loop appends the month and then builds \<open>datetime(10000, 1, 1)\<close>, which
  raises \<open>ValueError\<close>: no request is issued. And on an archive whose retrievals fail,
  the exception of the first call ends the run: of the two months January and February
  2010 only January is requested.
\<close>

theorem fetcher_stops_early:
  "valid_date (9999, 12) \<and> date_le (9999, 12) (9999, 12)
   \<and> api_era5_land cds_ok ''data'' 9999 12 9999 12 [''2m_temperature''] [90, - 180, - 90, 180] fetch_start
       = (Some ValueError, fetch_start)
   \<and> calendar_months (2010, 1) (2010, 2) = [(2010, 1), (2010, 2)]
   \<and> fst (api_era5_land cds_down ''data'' 2010 1 2010 2 [''2m_temperature''] [90, - 180, - 90, 180] fetch_start)
       = Some RetrieveError
   \<and> map (\<lambda>c. (req_year (fst (snd c)), req_month (fst (snd c))))
        (issued (snd (api_era5_land cds_down ''data'' 2010 1 2010 2 [''2m_temperature'']
                   [90, - 180, - 90, 180] fetch_start)))
       = [(str_int 2010, fmt_02d 1)]"
proof -
  have a: "month_walk (9999, 12) (9999, 12) [] = Inl ValueError"
    by (rule month_walk_overflow) (simp_all add: valid_date_def)
  have 1: "api_era5_land cds_ok ''data'' 9999 12 9999 12 [''2m_temperature''] [90, - 180, - 90, 180] fetch_start
       = (Some ValueError, fetch_start)"
    using a by (simp add: api_era5_land_def datetime_def)
  have c: "calendar_months (2010, 1) (2010, 2) = [(2010, 1), (2010, 2)]"
    by (simp add: calendar_months_def month_index_def upto_rec1)
  have w: "month_walk (2010, 1) (2010, 2) [] = Inr [(2010, 1), (2010, 2)]"
    using month_walk_calendar_months[of "(2010, 1)" "(2010, 2)" "[]"] c by (simp add: valid_date_def)
  have m: "monthrange 2010 1 = Inr 31" by (simp add: monthrange_days_in_month days_in_month_def)
  have 2: "api_era5_land cds_down ''data'' 2010 1 2010 2 [''2m_temperature''] [90, - 180, - 90, 180] fetch_start
      = (Some RetrieveError,
         fetch_start\<lparr>issued := [(''reanalysis-era5-land'',
            build_request [''2m_temperature''] [90, - 180, - 90, 180] 2010 1 31,
            target_file ''data'' 2010 1)]\<rparr>)"
    using w m by (simp add: api_era5_land_def datetime_def cds_down_def fetch_start_def)
  have 3: "fst (api_era5_land cds_down ''data'' 2010 1 2010 2 [''2m_temperature''] [90, - 180, - 90, 180] fetch_start)
       = Some RetrieveError"
    unfolding 2 by simp
  have 4: "map (\<lambda>c. (req_year (fst (snd c)), req_month (fst (snd c))))
        (issued (snd (api_era5_land cds_down ''data'' 2010 1 2010 2 [''2m_temperature'']
                   [90, - 180, - 90, 180] fetch_start)))
       = [(str_int 2010, fmt_02d 1)]"
    unfolding 2 by (simp add: build_request_def)
  have v: "valid_date (9999, 12)" "date_le (9999, 12) (9999, 12)" by (simp_all add: valid_date_def)
  from v 1 c 3 4 show ?thesis by blast
qed

text \<open>
  Claim C2, as the code has it. Let the year range hold files for two years
  \<open>y1 < y2\<close> only, and let each year's opened files have pairwise distinct
  timestamps. Then the procedure returns the first year's cleaned rows followed by the
  second year's. Its timestamps are exactly the timestamps of the two years' rows that
  lie in the year of their files and are not entirely missing; they are strictly
  ascending; and every returned row comes from the files of the year its timestamp
  lies in.
\<close>

theorem two_years_combined:
  assumes "start_year \<le> y1" and "y1 < y2" and "y2 \<le> end_year"
    and "\<forall>y. start_year \<le> y \<and> y \<le> end_year \<and> y \<noteq> y1 \<and> y \<noteq> y2
                \<longrightarrow> glob_glob (disk w) (grib_pattern inputs y) = []"
    and "glob_glob (disk w) (grib_pattern inputs y1) \<noteq> []"
    and "open_mfdataset combine (disk w) (sort (glob_glob (disk w) (grib_pattern inputs y1))) = Inr g1"
    and "glob_glob (disk w) (grib_pattern inputs y2) \<noteq> []"
    and "open_mfdataset combine (disk w) (sort (glob_glob (disk w) (grib_pattern inputs y2))) = Inr g2"
    and "distinct (map fst (concat (grid g1)))" and "distinct (map fst (concat (grid g2)))"
    and "save \<longrightarrow> writable (disk w) (output_file outputs start_year end_year)"
  shows "fst (aggregate_era5_land_timeseries combine inputs outputs start_year end_year save w)
       = Inr (combined_two y1 g1 y2 g2)
    \<and> rows (combined_two y1 g1 y2 g2) = rows (clean_year y1 g1) @ rows (clean_year y2 g2)
    \<and> set (map fst (rows (combined_two y1 g1 y2 g2)))
        = fst ` {r \<in> set (concat (grid g1)). year_of (fst r) = y1 \<and> \<not> all_missing (grib_vars g1) r}
          \<union> fst ` {r \<in> set (concat (grid g2)). year_of (fst r) = y2 \<and> \<not> all_missing (grib_vars g2) r}
    \<and> sorted_wrt (<) (map fst (rows (combined_two y1 g1 y2 g2)))
    \<and> (\<forall>r \<in> set (rows (combined_two y1 g1 y2 g2)).
          (r \<in> set (concat (grid g1)) \<and> year_of (fst r) = y1)
          \<or> (r \<in> set (concat (grid g2)) \<and> year_of (fst r) = y2))"
proof -
  have l: "fst (year_loop combine inputs [start_year..end_year] Dataset w) = Inr (combined_two y1 g1 y2 g2)"
    unfolding combined_two_def using assms(1-8) by (rule two_years_loop)
  have 1: "fst (aggregate_era5_land_timeseries combine inputs outputs start_year end_year save w)
       = Inr (combined_two y1 g1 y2 g2)"
    using l assms(11) by (rule aggregate_returns)
  have 2: "rows (combined_two y1 g1 y2 g2) = rows (clean_year y1 g1) @ rows (clean_year y2 g2)"
    unfolding combined_two_def by (rule rows_two_years)
  have 3: "set (map fst (rows (combined_two y1 g1 y2 g2)))
        = fst ` {r \<in> set (concat (grid g1)). year_of (fst r) = y1 \<and> \<not> all_missing (grib_vars g1) r}
          \<union> fst ` {r \<in> set (concat (grid g2)). year_of (fst r) = y2 \<and> \<not> all_missing (grib_vars g2) r}"
    unfolding 2 by (simp add: set_clean_year kept_def image_Un)
  have 4: "sorted_wrt (<) (map fst (rows (combined_two y1 g1 y2 g2)))"
    unfolding 2 using assms(2,9,10) by (rule strict_two_years)
  have 5: "\<forall>r \<in> set (rows (combined_two y1 g1 y2 g2)).
          (r \<in> set (concat (grid g1)) \<and> year_of (fst r) = y1)
          \<or> (r \<in> set (concat (grid g2)) \<and> year_of (fst r) = y2)"
    unfolding 2 set_append set_clean_year kept_def by blast
  from 1 2 3 4 5 show ?thesis by blast
qed

theorem two_years_combined_witness:
  "(2009 :: int) \<le> 2010 \<and> (2010 :: int) < 2011 \<and> (2011 :: int) \<le> 2011
   \<and> glob_glob (disk ex_world) (grib_pattern ''in'' 2009) = []
   \<and> glob_glob (disk ex_world) (grib_pattern ''in'' 2010) \<noteq> []
   \<and> open_mfdataset combine_along_time (disk ex_world)
        (sort (glob_glob (disk ex_world) (grib_pattern ''in'' 2010))) = Inr g2010
   \<and> glob_glob (disk ex_world) (grib_pattern ''in'' 2011) \<noteq> []
   \<and> open_mfdataset combine_along_time (disk ex_world)
        (sort (glob_glob (disk ex_world) (grib_pattern ''in'' 2011))) = Inr g2011
   \<and> distinct (map fst (concat (grid g2010))) \<and> distinct (map fst (concat (grid g2011)))
   \<and> fst (aggregate_era5_land_timeseries combine_along_time ''in'' ''out'' 2009 2011 False ex_world)
       = Inr ex_result
   \<and> map fst (rows ex_result)
       = [1262304000000000000, 1262307600000000000, 1293843600000000000, 1293847200000000000]
   \<and> sorted_wrt (<) (map fst (rows ex_result))"
proof -
  have y: "(2009 :: int) \<le> 2010" "(2010 :: int) < 2011" "(2011 :: int) \<le> 2011" by simp_all
  have none: "\<forall>y. 2009 \<le> y \<and> y \<le> 2011 \<and> y \<noteq> 2010 \<and> y \<noteq> 2011
                \<longrightarrow> glob_glob (disk ex_world) (grib_pattern ''in'' y) = []"
    by (simp add: ex_glob)
  have g: "glob_glob (disk ex_world) (grib_pattern ''in'' 2009) = []"
    "glob_glob (disk ex_world) (grib_pattern ''in'' 2010) \<noteq> []"
    "glob_glob (disk ex_world) (grib_pattern ''in'' 2011) \<noteq> []"
    by (simp_all add: ex_glob)
  have o: "open_mfdataset combine_along_time (disk ex_world)
      (sort (glob_glob (disk ex_world) (grib_pattern ''in'' 2010))) = Inr g2010"
    "open_mfdataset combine_along_time (disk ex_world)
      (sort (glob_glob (disk ex_world) (grib_pattern ''in'' 2011))) = Inr g2011"
    by (simp_all add: ex_glob ex_open)
  have s: "False \<longrightarrow> writable (disk ex_world) (output_file ''out'' 2009 2011)" by simp
  note t = two_years_combined [OF y none g(2) o(1) g(3) o(2) ex_distinct(1,2) s, unfolded ex_combined]
  have m: "map fst (rows ex_result)
       = [1262304000000000000, 1262307600000000000, 1293843600000000000, 1293847200000000000]"
    by (simp add: ex_result_def)
  from t y g o ex_distinct(1,2) m show ?thesis by blast
qed

text \<open>
  Claim C2 as stated fails: the files of 2010 and 2011 in the example have no
  timestamp in common, and the files of 2010 hold 2010-01-01T02:00 with all cells
  missing and 2011-01-01T00:00; neither timestamp is in the returned dataset, so the
  result does not hold the union of both years' timestamps.
\<close>

theorem two_years_union_counterexample:
  "open_mfdataset combine_along_time (disk ex_world)
      (sort (glob_glob (disk ex_world) (grib_pattern ''in'' 2010))) = Inr g2010
   \<and> open_mfdataset combine_along_time (disk ex_world)
      (sort (glob_glob (disk ex_world) (grib_pattern ''in'' 2011))) = Inr g2011
   \<and> distinct (map fst (concat (grid g2010) @ concat (grid g2011)))
   \<and> fst (aggregate_era5_land_timeseries combine_along_time ''in'' ''out'' 2010 2011 False ex_world)
       = Inr ex_result
   \<and> year_of 1262311200000000000 = 2010
   \<and> 1262311200000000000 \<in> set (map fst (concat (grid g2010)))
   \<and> 1262311200000000000 \<notin> set (map fst (rows ex_result))
   \<and> 1293840000000000000 \<in> set (map fst (concat (grid g2010)))
   \<and> 1293840000000000000 \<notin> set (map fst (rows ex_result))"
proof -
  have o: "open_mfdataset combine_along_time (disk ex_world)
      (sort (glob_glob (disk ex_world) (grib_pattern ''in'' 2010))) = Inr g2010"
    "open_mfdataset combine_along_time (disk ex_world)
      (sort (glob_glob (disk ex_world) (grib_pattern ''in'' 2011))) = Inr g2011"
    by (simp_all add: ex_glob ex_open)
  have r: "fst (aggregate_era5_land_timeseries combine_along_time ''in'' ''out'' 2010 2011 False ex_world)
       = Inr ex_result"
    unfolding aggregate_no_save ex_upto by (rule ex_loop2)
  have m: "1262311200000000000 \<in> set (map fst (concat (grid g2010)))"
    "1293840000000000000 \<in> set (map fst (concat (grid g2010)))"
    by (simp_all add: g2010_def)
  have n: "1262311200000000000 \<notin> set (map fst (rows ex_result))"
    "1293840000000000000 \<notin> set (map fst (rows ex_result))"
    by (simp_all add: ex_result_def)
  from o r m n ex_distinct(3) ex_years(3) show ?thesis by blast
qed

text \<open>
  Claim C3, as the code has it. The timestamps of a year's cleaned slice are sorted
  ascending, and they are the timestamps of the kept input rows with their
  multiplicities: the code sorts and drops rows, it does not deduplicate. So the slice
  is strictly increasing (and hence free of duplicates) exactly when the kept input
  rows have distinct timestamps.
\<close>

theorem year_slice_sorted_not_deduplicated:
  "sorted (map fst (rows (clean_year y g)))
   \<and> mset (map fst (rows (clean_year y g)))
       = mset (map fst (filter (\<lambda>r. year_of (fst r) = y \<and> \<not> all_missing (grib_vars g) r) (concat (grid g))))
   \<and> (sorted_wrt (<) (map fst (rows (clean_year y g)))
        \<longleftrightarrow> distinct (map fst (filter (\<lambda>r. year_of (fst r) = y \<and> \<not> all_missing (grib_vars g) r)
                               (concat (grid g)))))"
  using sorted_clean_year[of y g] mset_clean_year[of y g] strict_clean_year[of y g]
  by (simp add: kept_def[abs_def])

theorem year_slice_sorted_not_deduplicated_witness:
  "map fst (rows (clean_year 2010 g2010)) = [1262304000000000000, 1262307600000000000]
   \<and> sorted (map fst (rows (clean_year 2010 g2010)))
   \<and> sorted_wrt (<) (map fst (rows (clean_year 2010 g2010)))
   \<and> distinct (map fst (filter (\<lambda>r. year_of (fst r) = 2010 \<and> \<not> all_missing (grib_vars g2010) r)
                               (concat (grid g2010))))"
proof -
  have "map fst (rows (clean_year 2010 g2010)) = [1262304000000000000, 1262307600000000000]"
    by (simp add: ex_clean_2010)
  moreover from this have "sorted_wrt (<) (map fst (rows (clean_year 2010 g2010)))" by simp
  ultimately show ?thesis using year_slice_sorted_not_deduplicated [of 2010 g2010] by blast
qed

text \<open>
  Claim C3 as stated fails: a year whose files hold the timestamp 2010-01-01T00:00
  twice, both times with data, keeps both rows, so the slice is neither strictly
  increasing nor free of duplicates.
\<close>

theorem year_slice_keeps_duplicates:
  "map fst (rows (clean_year 2010 g_dup)) = [1262304000000000000, 1262304000000000000]
   \<and> \<not> sorted_wrt (<) (map fst (rows (clean_year 2010 g_dup)))
   \<and> \<not> distinct (map fst (rows (clean_year 2010 g_dup)))"
  by (simp add: ex_clean_dup)

text \<open>
  Claim C4. When files are found for a year and can be opened, the loop body continues
  with that year's cleaned dataset (alone, or appended to the running dataset). Every
  row of the cleaned dataset has its timestamp in the year and has a cell that is not
  missing; its rows are exactly the rows of the opened files with these two properties;
  and they are sorted by timestamp ascending.
\<close>

theorem year_cleaned:
  assumes "glob_glob (disk w) (grib_pattern inputs y) \<noteq> []"
    and "open_mfdataset combine (disk w) (sort (glob_glob (disk w) (grib_pattern inputs y))) = Inr g"
  shows "fst (year_body combine inputs y ds_variable w)
       = Inr (if truthy ds_variable then xr_concat ds_variable (clean_year y g) else clean_year y g)
    \<and> (\<forall>r \<in> set (rows (clean_year y g)).
          year_of (fst r) = y \<and> \<not> all_missing (data_vars (clean_year y g)) r)
    \<and> set (rows (clean_year y g))
        = {r \<in> set (concat (grid g)). year_of (fst r) = y \<and> \<not> all_missing (grib_vars g) r}
    \<and> sorted (map fst (rows (clean_year y g)))"
  using sorted_clean_year[of y g]
  by (auto simp: year_body_found[OF assms(1)] assms(2) set_clean_year kept_def)

theorem year_cleaned_witness:
  "glob_glob (disk ex_world) (grib_pattern ''in'' 2010) \<noteq> []
   \<and> open_mfdataset combine_along_time (disk ex_world)
        (sort (glob_glob (disk ex_world) (grib_pattern ''in'' 2010))) = Inr g2010
   \<and> fst (year_body combine_along_time ''in'' 2010 Dataset ex_world) = Inr (clean_year 2010 g2010)
   \<and> map fst (concat (grid g2010))
        = [1262307600000000000, 1262304000000000000, 1262311200000000000, 1293840000000000000]
   \<and> map fst (rows (clean_year 2010 g2010)) = [1262304000000000000, 1262307600000000000]
   \<and> map (\<lambda>r. year_of (fst r)) (rows (clean_year 2010 g2010)) = [2010, 2010]
   \<and> map (all_missing (data_vars (clean_year 2010 g2010))) (rows (clean_year 2010 g2010)) = [False, False]
   \<and> sorted (map fst (rows (clean_year 2010 g2010)))"
proof -
  have h: "glob_glob (disk ex_world) (grib_pattern ''in'' 2010) \<noteq> []"
    "open_mfdataset combine_along_time (disk ex_world)
        (sort (glob_glob (disk ex_world) (grib_pattern ''in'' 2010))) = Inr g2010"
    by (simp_all add: ex_glob ex_open)
  have e0: "map fst (concat (grid g2010))
        = [1262307600000000000, 1262304000000000000, 1262311200000000000, 1293840000000000000]"
    by (simp add: g2010_def)
  have e: "map fst (rows (clean_year 2010 g2010)) = [1262304000000000000, 1262307600000000000]"
    "map (\<lambda>r. year_of (fst r)) (rows (clean_year 2010 g2010)) = [2010, 2010]"
    "map (all_missing (data_vars (clean_year 2010 g2010))) (rows (clean_year 2010 g2010)) = [False, False]"
    by (simp_all add: ex_clean_2010 ex_years all_missing_def var_cells_def)
  note c = year_cleaned [OF h, of Dataset]
  have b: "fst (year_body combine_along_time ''in'' 2010 Dataset ex_world) = Inr (clean_year 2010 g2010)"
    using c [THEN conjunct1] by (simp add: truthy_def Dataset_def)
  have s: "sorted (map fst (rows (clean_year 2010 g2010)))"
    using c by blast
  from h b e0 e s show ?thesis by blast
qed

text \<open>
  Claim C5. For a year with no matching file the loop body returns the running dataset
  unchanged and only prints the diagnostic; the loop goes on with the next year, and
  the result of the whole run is the result of the run without that year. Nothing else
  is recovered: an exception of \<open>open_mfdataset\<close> for a year with files is the result
  of that year's body, an exception of a body is the result of the loop, an exception
  of the loop is the result of the procedure, and so is a failed write.
\<close>

theorem missing_year_skipped:
  assumes "glob_glob (disk w) (grib_pattern inputs y) = []"
  shows "year_body combine inputs y ds_variable w =
       (Inr ds_variable,
        w\<lparr>stdout := stdout w @ [''No file for year '' @ str_int y @ '' found in '' @ inputs]\<rparr>)
    \<and> year_loop combine inputs (y # ys) ds_variable w =
        year_loop combine inputs ys ds_variable
          (w\<lparr>stdout := stdout w @ [''No file for year '' @ str_int y @ '' found in '' @ inputs]\<rparr>)
    \<and> (start_year \<le> y \<and> y \<le> end_year \<longrightarrow>
         fst (aggregate_era5_land_timeseries combine inputs outputs start_year end_year False w)
          = fst (year_loop combine inputs ([start_year..y - 1] @ [y + 1..end_year]) Dataset w))
    \<and> (\<forall>y' ds' w' err.
          glob_glob (disk w') (grib_pattern inputs y') \<noteq> [] \<and>
          open_mfdataset combine (disk w') (sort (glob_glob (disk w') (grib_pattern inputs y'))) = Inl err
          \<longrightarrow> fst (year_body combine inputs y' ds' w') = Inl err)
    \<and> (\<forall>y' ys' ds' w' err.
          fst (year_body combine inputs y' ds' w') = Inl err
          \<longrightarrow> fst (year_loop combine inputs (y' # ys') ds' w') = Inl err)
    \<and> (\<forall>save err.
          fst (year_loop combine inputs [start_year..end_year] Dataset w) = Inl err
          \<longrightarrow> fst (aggregate_era5_land_timeseries combine inputs outputs start_year end_year save w) = Inl err)
    \<and> (\<forall>ds. fst (year_loop combine inputs [start_year..end_year] Dataset w) = Inr ds
           \<and> \<not> writable (disk w) (output_file outputs start_year end_year)
          \<longrightarrow> fst (aggregate_era5_land_timeseries combine inputs outputs start_year end_year True w)
                = Inl WriteError)"
proof -
  note 1 = year_body_missing[OF assms, of combine ds_variable]
  have 2: "year_loop combine inputs (y # ys) ds_variable w =
        year_loop combine inputs ys ds_variable
          (w\<lparr>stdout := stdout w @ [''No file for year '' @ str_int y @ '' found in '' @ inputs]\<rparr>)"
    by (simp add: 1)
  have 3: "start_year \<le> y \<and> y \<le> end_year \<longrightarrow>
         fst (aggregate_era5_land_timeseries combine inputs outputs start_year end_year False w)
          = fst (year_loop combine inputs ([start_year..y - 1] @ [y + 1..end_year]) Dataset w)"
    using year_loop_skip_one[OF assms, of combine "[start_year..y - 1]" "[y + 1..end_year]" Dataset]
    by (auto simp: aggregate_no_save upto_split_at[of start_year y end_year])
  have 4: "fst (year_body combine inputs y' ds' w') = Inl err"
    if "glob_glob (disk w') (grib_pattern inputs y') \<noteq> []"
      "open_mfdataset combine (disk w') (sort (glob_glob (disk w') (grib_pattern inputs y'))) = Inl err"
    for y' ds' w' err
    using that by (simp add: year_body_found)
  have 5: "fst (year_loop combine inputs (y' # ys') ds' w') = Inl err"
    if "fst (year_body combine inputs y' ds' w') = Inl err" for y' ys' ds' w' err
    using that by (cases "year_body combine inputs y' ds' w'") simp
  have 6: "fst (aggregate_era5_land_timeseries combine inputs outputs start_year end_year save w) = Inl err"
    if "fst (year_loop combine inputs [start_year..end_year] Dataset w) = Inl err" for save err
    using that
    by (cases "year_loop combine inputs [start_year..end_year] Dataset w")
      (simp add: aggregate_era5_land_timeseries_def)
  have 7: "fst (aggregate_era5_land_timeseries combine inputs outputs start_year end_year True w)
                = Inl WriteError"
    if "fst (year_loop combine inputs [start_year..end_year] Dataset w) = Inr ds"
      "\<not> writable (disk w) (output_file outputs start_year end_year)" for ds
    using that
    by (cases "year_loop combine inputs [start_year..end_year] Dataset w")
      (simp add: aggregate_save to_netcdf_Inl)
  from 1 2 3 4 5 6 7 show ?thesis by blast
qed

theorem missing_year_skipped_witness:
  "glob_glob (disk ex_world) (grib_pattern ''in'' 2009) = []
   \<and> year_body combine_along_time ''in'' 2009 Dataset ex_world =
       (Inr Dataset, ex_world\<lparr>stdout := [''No file for year '' @ str_int 2009 @ '' found in in'']\<rparr>)
   \<and> fst (aggregate_era5_land_timeseries combine_along_time ''in'' ''out'' 2009 2011 False ex_world)
       = fst (year_loop combine_along_time ''in'' [2010, 2011] Dataset ex_world)
   \<and> fst (aggregate_era5_land_timeseries combine_along_time ''in'' ''out'' 2009 2011 False ex_world)
       = Inr ex_result
   \<and> glob_glob (disk ex_broken) (grib_pattern ''in'' 2009) = []
   \<and> glob_glob (disk ex_broken) (grib_pattern ''in'' 2010) \<noteq> []
   \<and> open_mfdataset combine_along_time (disk ex_broken)
        (sort (glob_glob (disk ex_broken) (grib_pattern ''in'' 2010))) = Inl OpenError
   \<and> fst (year_body combine_along_time ''in'' 2010 Dataset ex_broken) = Inl OpenError
   \<and> fst (year_loop combine_along_time ''in'' [2010, 2011] Dataset ex_broken) = Inl OpenError"
proof -
  have h: "glob_glob (disk ex_world) (grib_pattern ''in'' 2009) = []"
    "glob_glob (disk ex_broken) (grib_pattern ''in'' 2009) = []"
    by (simp_all add: ex_glob ex_glob_broken)
  have o: "glob_glob (disk ex_broken) (grib_pattern ''in'' 2010) \<noteq> []"
    "open_mfdataset combine_along_time (disk ex_broken)
        (sort (glob_glob (disk ex_broken) (grib_pattern ''in'' 2010))) = Inl OpenError"
    by (simp_all add: ex_glob ex_glob_broken open_mfdataset_def)
  note r = ex_run
  note a = missing_year_skipped [OF h(1), of combine_along_time Dataset "[]" 2009 2011 "''out''"]
  note b = missing_year_skipped [OF h(2), of combine_along_time Dataset "[]" 2009 2011 "''out''"]
  have 1: "year_body combine_along_time ''in'' 2009 Dataset ex_world =
       (Inr Dataset, ex_world\<lparr>stdout := [''No file for year '' @ str_int 2009 @ '' found in in'']\<rparr>)"
    using a by simp
  have 2: "fst (aggregate_era5_land_timeseries combine_along_time ''in'' ''out'' 2009 2011 False ex_world)
       = fst (year_loop combine_along_time ''in'' [2010, 2011] Dataset ex_world)"
    using a by (simp add: ex_upto)
  have 3: "fst (year_body combine_along_time ''in'' 2010 Dataset ex_broken) = Inl OpenError"
    using b o by blast
  have 4: "fst (year_loop combine_along_time ''in'' [2010, 2011] Dataset ex_broken) = Inl OpenError"
    using b 3 by blast
  from h o r 1 2 3 4 show ?thesis by blast
qed

text \<open>
  Claim C6. Let a run with \<open>save\<close> true return a dataset, and run the procedure again
  with the same arguments in the world the first run has left, whatever it has printed
  and in whatever order the directories are now enumerated. The second run returns the
  same dataset, and the files hold the same content after it as before it: the output
  file of the first run does not match any year's pattern, the globbed paths are
  sorted, and the write replaces the output file by an equal one.
\<close>

theorem second_run_identical:
  assumes "aggregate_era5_land_timeseries combine inputs outputs start_year end_year True w = (Inr ds, w1)"
    and "\<forall>d. mset (listdir (disk w2) d) = mset (listdir (disk w1) d)"
    and "expand_dirs (disk w2) = expand_dirs (disk w1)"
    and "same_dir (disk w2) = same_dir (disk w1)"
    and "files (disk w2) = files (disk w1)"
    and "writable (disk w2) = writable (disk w1)"
  shows "fst (aggregate_era5_land_timeseries combine inputs outputs start_year end_year True w2) = Inr ds
    \<and> files (disk w1) (output_file outputs start_year end_year) = Some (NetCDFFile ds)
    \<and> files (disk (snd (aggregate_era5_land_timeseries combine inputs outputs start_year end_year True w2)))
        = files (disk w1)"
proof -
  let ?out = "output_file outputs start_year end_year"
  note l = aggregate_save_Inr(1)[OF assms(1)] and wr = aggregate_save_Inr(2)[OF assms(1)]
  have w: "writable (disk w) ?out"
    using wr by (auto simp: to_netcdf_def split: if_splits)
  note fs1 = wr[unfolded to_netcdf_Inr[OF w], simplified, symmetric]
  have sd1: "same_dir (disk w1) = same_dir (disk w)" and wr1: "writable (disk w1) = writable (disk w)"
    and f1: "files (disk w1) = (\<lambda>p. if same_file (disk w) p ?out then Some (NetCDFFile ds) else files (disk w) p)"
    by (subst fs1, simp)+
  have "\<forall>y \<in> set [start_year..end_year]. same_inputs (disk w) (disk w2) inputs y"
    using written_same_inputs[OF wr assms(2,3,5)] by blast
  then have "fst (year_loop combine inputs [start_year..end_year] Dataset w2) = Inr ds"
    using year_loop_same_inputs[of "[start_year..end_year]" w w2 inputs combine Dataset] l by simp
  moreover have w2: "writable (disk w2) ?out" using w assms(6) wr1 by simp
  ultimately have 1: "fst (aggregate_era5_land_timeseries combine inputs outputs start_year end_year True w2) = Inr ds"
    by (intro aggregate_returns) simp_all
  have 2: "files (disk w1) ?out = Some (NetCDFFile ds)"
    unfolding f1 by simp
  obtain r v where l2: "year_loop combine inputs [start_year..end_year] Dataset w2 = (r, v)"
    by (cases "year_loop combine inputs [start_year..end_year] Dataset w2")
  have r: "r = Inr ds"
    using \<open>fst (year_loop combine inputs [start_year..end_year] Dataset w2) = Inr ds\<close> l2 by simp
  have sf: "same_file (disk w2) = same_file (disk w)"
    using assms(4) sd1 by (simp add: same_file_def fun_eq_iff)
  have "files (disk (snd (aggregate_era5_land_timeseries combine inputs outputs start_year end_year True w2)))
      = (\<lambda>p. if same_file (disk w2) p ?out then Some (NetCDFFile ds) else files (disk w2) p)"
    using l2 r by (simp add: aggregate_save to_netcdf_Inr[OF w2])
  also have "\<dots> = files (disk w1)"
    unfolding sf assms(5) f1 by (simp add: fun_eq_iff)
  finally have 3: "files (disk (snd (aggregate_era5_land_timeseries combine inputs outputs start_year end_year True w2)))
        = files (disk w1)" .
  from 1 2 3 show ?thesis by blast
qed

theorem second_run_identical_witness:
  "aggregate_era5_land_timeseries combine_along_time ''in'' ''out'' 2009 2011 True ex_world
     = (Inr ex_result, ex_after)
   \<and> listdir (disk ex_again) ''in'' = rev (listdir (disk ex_after) ''in'')
   \<and> fst (aggregate_era5_land_timeseries combine_along_time ''in'' ''out'' 2009 2011 True ex_again)
       = Inr ex_result
   \<and> files (disk ex_after) (output_file ''out'' 2009 2011) = Some (NetCDFFile ex_result)
   \<and> files (disk (snd (aggregate_era5_land_timeseries combine_along_time ''in'' ''out'' 2009 2011 True ex_again)))
       = files (disk ex_after)"
proof -
  have "fst (aggregate_era5_land_timeseries combine_along_time ''in'' ''out'' 2009 2011 True ex_world)
      = Inr ex_result"
    using ex_run by (intro aggregate_returns) (simp_all add: aggregate_no_save)
  then have 1: "aggregate_era5_land_timeseries combine_along_time ''in'' ''out'' 2009 2011 True ex_world
     = (Inr ex_result, ex_after)"
    unfolding ex_after_def by (simp add: prod_eq_iff)
  have h: "\<forall>d. mset (listdir (disk ex_again) d) = mset (listdir (disk ex_after) d)"
    "expand_dirs (disk ex_again) = expand_dirs (disk ex_after)"
    "same_dir (disk ex_again) = same_dir (disk ex_after)"
    "files (disk ex_again) = files (disk ex_after)"
    "writable (disk ex_again) = writable (disk ex_after)"
    by (simp_all add: ex_again_def)
  have 2: "listdir (disk ex_again) ''in'' = rev (listdir (disk ex_after) ''in'')"
    by (simp add: ex_again_def)
  from second_run_identical [OF 1 h] 1 2 show ?thesis by blast
qed

text \<open>
  Claim C7. The path the Fetcher downloads a month to determines the year and the
  month: for one target directory, two pairs (year, month) give the same path exactly
  when they are the same pair. This holds for all integers, so in particular for the
  months of one run.
\<close>

theorem target_file_injective:
  "(target_file target_path y1 m1 = target_file target_path y2 m2) = (y1 = y2 \<and> m1 = m2)"
  by (rule target_file_inj)

theorem target_file_injective_witness:
  "target_file ''data'' 2010 3 \<noteq> target_file ''data'' 2010 4
   \<and> target_file ''data'' 2010 12 \<noteq> target_file ''data'' 2011 12"
  using target_file_injective [of "''data''" 2010 3 2010 4]
    target_file_injective [of "''data''" 2010 12 2011 12]
  by simp




text \<open>
  Claim C9. With \<open>save\<close> false the file system is left as it was. When the loop
  raises, the procedure raises the same exception with \<open>save\<close> true and writes nothing.
  Where the output path is writable, the procedure returns the same with \<open>save\<close> true
  as with \<open>save\<close> false, and with \<open>save\<close> true and a dataset returned the file system is
  changed by the one call of \<open>to_netcdf\<close> for that dataset at
  \<open>{outputs}/inflows_var_era5_{start_year}to{end_year}.nc\<close>: that path holds the
  dataset, every other file is as before, and directory listings gain at most that
  file name.
\<close>

theorem save_flag_only_adds_output_file:
  "disk (snd (aggregate_era5_land_timeseries combine inputs outputs start_year end_year False w)) = disk w
   \<and> (\<forall>err. fst (aggregate_era5_land_timeseries combine inputs outputs start_year end_year False w) = Inl err \<longrightarrow>
         fst (aggregate_era5_land_timeseries combine inputs outputs start_year end_year True w) = Inl err
         \<and> disk (snd (aggregate_era5_land_timeseries combine inputs outputs start_year end_year True w)) = disk w)
   \<and> (writable (disk w) (output_file outputs start_year end_year) \<longrightarrow>
        fst (aggregate_era5_land_timeseries combine inputs outputs start_year end_year True w)
          = fst (aggregate_era5_land_timeseries combine inputs outputs start_year end_year False w)
        \<and> (\<forall>ds. fst (aggregate_era5_land_timeseries combine inputs outputs start_year end_year False w) = Inr ds \<longrightarrow>
              to_netcdf (disk w) (output_file outputs start_year end_year) ds
                = Inr (disk (snd (aggregate_era5_land_timeseries combine inputs outputs start_year end_year True w)))
              \<and> files (disk (snd (aggregate_era5_land_timeseries combine inputs outputs start_year end_year True w)))
                   (output_file outputs start_year end_year) = Some (NetCDFFile ds)
              \<and> (\<forall>p. \<not> same_file (disk w) p (output_file outputs start_year end_year) \<longrightarrow>
                    files (disk (snd (aggregate_era5_land_timeseries combine inputs outputs start_year end_year True w))) p
                      = files (disk w) p)
              \<and> (\<forall>d. set (listdir (disk w) d)
                      \<subseteq> set (listdir (disk (snd (aggregate_era5_land_timeseries combine inputs outputs start_year end_year True w))) d)
                    \<and> set (listdir (disk (snd (aggregate_era5_land_timeseries combine inputs outputs start_year end_year True w))) d)
                      \<subseteq> insert (''inflows_var_era5_'' @ str_int start_year @ ''to'' @ str_int end_year @ ''.nc'')
                           (set (listdir (disk w) d)))))"
proof -
  obtain r w' where l: "year_loop combine inputs [start_year..end_year] Dataset w = (r, w')"
    by (cases "year_loop combine inputs [start_year..end_year] Dataset w")
  then have d: "disk w' = disk w"
    using year_loop_disk[of combine inputs "[start_year..end_year]" Dataset w] by simp
  show ?thesis
  proof (cases r)
    case (Inl err)
    with l d show ?thesis by (simp add: aggregate_no_save aggregate_save)
  next
    case (Inr ds)
    show ?thesis
    proof (cases "writable (disk w) (output_file outputs start_year end_year)")
      case True
      with l d Inr show ?thesis
        by (auto simp: aggregate_no_save aggregate_save to_netcdf_Inr[OF True] output_file_split)
    next
      case False
      with l d Inr show ?thesis by (simp add: aggregate_no_save)
    qed
  qed
qed

theorem save_flag_only_adds_output_file_witness:
  "writable (disk ex_world) (output_file ''out'' 2009 2011)
   \<and> fst (aggregate_era5_land_timeseries combine_along_time ''in'' ''out'' 2009 2011 False ex_world)
       = Inr ex_result
   \<and> fst (aggregate_era5_land_timeseries combine_along_time ''in'' ''out'' 2009 2011 True ex_world)
       = Inr ex_result
   \<and> disk (snd (aggregate_era5_land_timeseries combine_along_time ''in'' ''out'' 2009 2011 False ex_world))
       = disk ex_world
   \<and> files (disk (snd (aggregate_era5_land_timeseries combine_along_time ''in'' ''out'' 2009 2011 True ex_world)))
        (output_file ''out'' 2009 2011) = Some (NetCDFFile ex_result)
   \<and> files (disk ex_world) (output_file ''out'' 2009 2011) = None
   \<and> fst (aggregate_era5_land_timeseries combine_along_time ''in'' ''out'' 2010 2011 False ex_broken)
       = Inl OpenError
   \<and> fst (aggregate_era5_land_timeseries combine_along_time ''in'' ''out'' 2010 2011 True ex_broken)
       = Inl OpenError
   \<and> disk (snd (aggregate_era5_land_timeseries combine_along_time ''in'' ''out'' 2010 2011 True ex_broken))
       = disk ex_broken"
proof -
  have h: "writable (disk ex_world) (output_file ''out'' 2009 2011)" by simp
  note r = ex_run
  have n: "files (disk ex_world) (output_file ''out'' 2009 2011) = None"
    by (simp add: output_file_def target_file_def)
  have b: "fst (aggregate_era5_land_timeseries combine_along_time ''in'' ''out'' 2010 2011 False ex_broken)
       = Inl OpenError"
    unfolding aggregate_no_save ex_upto
    by (simp add: year_body_def ex_glob ex_glob_broken open_mfdataset_def)
  note a = save_flag_only_adds_output_file [of combine_along_time "''in''" "''out''" 2009 2011 ex_world]
  note c = save_flag_only_adds_output_file [of combine_along_time "''in''" "''out''" 2010 2011 ex_broken]
  from a c h r n b show ?thesis by (simp only: simp_thms)
qed

text \<open>
  Claim C10. With \<open>end_year < start_year\<close> the range of years is empty: nothing is
  printed, no file is opened, and the empty dataset is returned; with \<open>save\<close> true
  (and a writable output path) the empty dataset is what is written, with \<open>save\<close> false
  the file system is left as it was. Likewise the Fetcher issues no request when the
  start date is after the end date.
\<close>

theorem empty_range_no_work:
  assumes "end_year < start_year"
    and "save \<longrightarrow> writable (disk w) (output_file outputs start_year end_year)"
  shows "[start_year..end_year] = []
    \<and> fst (aggregate_era5_land_timeseries combine inputs outputs start_year end_year save w) = Inr Dataset
    \<and> opened (snd (aggregate_era5_land_timeseries combine inputs outputs start_year end_year save w)) = opened w
    \<and> stdout (snd (aggregate_era5_land_timeseries combine inputs outputs start_year end_year save w)) = stdout w
    \<and> (if save
        then to_netcdf (disk w) (output_file outputs start_year end_year) Dataset
               = Inr (disk (snd (aggregate_era5_land_timeseries combine inputs outputs start_year end_year save w)))
           \<and> files (disk (snd (aggregate_era5_land_timeseries combine inputs outputs start_year end_year save w)))
               (output_file outputs start_year end_year) = Some (NetCDFFile Dataset)
        else disk (snd (aggregate_era5_land_timeseries combine inputs outputs start_year end_year save w)) = disk w)
    \<and> (\<not> date_le (fetch_start_year, fetch_start_month) (fetch_end_year, fetch_end_month) \<longrightarrow>
         issued (snd (api_era5_land cds target_path fetch_start_year fetch_start_month
                        fetch_end_year fetch_end_month variables area fw)) = issued fw)"
proof -
  have e: "[start_year..end_year] = []" using assms(1) by simp
  show ?thesis
  proof (cases save)
    case True
    with assms(2) have wr: "writable (disk w) (output_file outputs start_year end_year)" by simp
    show ?thesis
      using True fetcher_empty_range[of fetch_start_year fetch_start_month fetch_end_year fetch_end_month
          cds target_path variables area fw]
      by (simp add: e aggregate_save to_netcdf_Inr[OF wr])
  next
    case False
    then show ?thesis
      using fetcher_empty_range[of fetch_start_year fetch_start_month fetch_end_year fetch_end_month
          cds target_path variables area fw]
      by (simp add: e aggregate_no_save)
  qed
qed

theorem empty_range_no_work_witness:
  "(2009 :: int) < 2011
   \<and> writable (disk ex_world) (output_file ''out'' 2011 2009)
   \<and> fst (aggregate_era5_land_timeseries combine_along_time ''in'' ''out'' 2011 2009 True ex_world) = Inr Dataset
   \<and> opened (snd (aggregate_era5_land_timeseries combine_along_time ''in'' ''out'' 2011 2009 True ex_world)) = []
   \<and> stdout (snd (aggregate_era5_land_timeseries combine_along_time ''in'' ''out'' 2011 2009 True ex_world)) = []
   \<and> files (disk (snd (aggregate_era5_land_timeseries combine_along_time ''in'' ''out'' 2011 2009 True ex_world)))
        (output_file ''out'' 2011 2009) = Some (NetCDFFile Dataset)
   \<and> fst (aggregate_era5_land_timeseries combine_along_time ''in'' ''out'' 2011 2009 False ex_world) = Inr Dataset
   \<and> disk (snd (aggregate_era5_land_timeseries combine_along_time ''in'' ''out'' 2011 2009 False ex_world))
       = disk ex_world
   \<and> \<not> date_le (2011, 3) (2011, 2)
   \<and> issued (snd (api_era5_land cds_ok ''data'' 2011 3 2011 2 [''2m_temperature'']
                     [90, - 180, - 90, 180] fetch_start)) = []"
proof -
  have h: "(2009 :: int) < 2011" by simp
  have wr: "save \<longrightarrow> writable (disk ex_world) (output_file ''out'' 2011 2009)" for save
    by simp
  have f: "\<not> date_le (2011, 3) (2011, 2)" by simp
  have i: "issued fetch_start = []" by (simp add: fetch_start_def)
  note a = empty_range_no_work [OF h wr, where save = True and combine = combine_along_time and inputs = "''in''"
      and fetch_start_year = 2011 and fetch_start_month = 3 and fetch_end_year = 2011
      and fetch_end_month = 2 and cds = cds_ok and target_path = "''data''"
      and variables = "[''2m_temperature'']" and area = "[90, - 180, - 90, 180]" and fw = fetch_start]
  note b = empty_range_no_work [OF h wr, where save = False and combine = combine_along_time and inputs = "''in''"
      and fetch_start_year = 2011 and fetch_start_month = 3 and fetch_end_year = 2011
      and fetch_end_month = 2 and cds = cds_ok and target_path = "''data''"
      and variables = "[''2m_temperature'']" and area = "[90, - 180, - 90, 180]" and fw = fetch_start]
  have w: "writable (disk ex_world) (output_file ''out'' 2011 2009)" by simp
  from a b f i h w show ?thesis by (simp only: if_True if_False simp_thms ex_world_simps)
qed

end
